theory Spec2Isabelle
  imports Main "HOL-Library.Stream"
begin

section \<open>The Python runtime used by \<open>synthetic.py\<close>\<close>

subsection \<open>Exceptions\<close>

text \<open>
  The generator itself contains no \<open>raise\<close>; every failure comes from a library call:
  \<open>random.choice\<close> on an empty sequence (IndexError), a column, dictionary key or
  list index that does not exist (KeyError, IndexError), \<open>random.sample\<close> with a
  sample larger than the population (ValueError), and date arithmetic on a missing date
  (recorded as TypeError, the exception of subtracting from \<open>None\<close>).
\<close>

datatype error = IndexError | KeyError string | ValueError | TypeError

subsection \<open>The shared random source\<close>

text \<open>
  The module-wide generator of \<open>random\<close> is threaded through every function as an
  explicit state. Its state is the infinite sequence of raw numbers it is still going to
  produce; each library call consumes raw numbers from the front. Nothing is assumed
  about the sequence, so a statement proved for every \<open>rng\<close> holds for every outcome the
  library calls can have.
\<close>

type_synonym rng = "nat stream"

text \<open>\<open>random.choice(seq)\<close>: IndexError on an empty sequence, else one of its elements.\<close>

definition random_choice :: "'a list \<Rightarrow> rng \<Rightarrow> error + ('a \<times> rng)" where
  "random_choice xs g =
     (if xs = [] then Inl IndexError
      else Inr (xs ! (shd g mod length xs), stl g))"

text \<open>
  \<open>random.randint(a, b)\<close>: an integer of the closed range from \<open>a\<close> to \<open>b\<close>. Every call
  site passes literal bounds with \<open>a \<le> b\<close>, so the ValueError of an empty range is not
  a path of this program.
\<close>

definition randint :: "int \<Rightarrow> int \<Rightarrow> rng \<Rightarrow> int \<times> rng" where
  "randint a b g = (a + int (shd g mod nat (b - a + 1)), stl g)"

text \<open>
  \<open>random.sample(population, k)\<close>: \<open>k\<close> elements taken from \<open>k\<close> different positions of
  the population, in selection order; ValueError when \<open>k\<close> is negative or larger than the
  population.
\<close>

fun sample_loop :: "'a list \<Rightarrow> nat \<Rightarrow> rng \<Rightarrow> 'a list \<times> rng" where
  "sample_loop pool 0 g = ([], g)"
| "sample_loop pool (Suc k) g =
     (let j = shd g mod length pool;
          (picked, g') = sample_loop (take j pool @ drop (Suc j) pool) k (stl g)
      in (pool ! j # picked, g'))"

definition random_sample :: "'a list \<Rightarrow> int \<Rightarrow> rng \<Rightarrow> error + ('a list \<times> rng)" where
  "random_sample population k g =
     (if k < 0 \<or> int (length population) < k then Inl ValueError
      else Inr (sample_loop population (nat k) g))"

text \<open>
  \<open>random.random()\<close>: a float \<open>m / 2^53\<close> with \<open>0 \<le> m < 2^53\<close>; the model returns the
  numerator \<open>m\<close>. The two thresholds of the program are the doubles nearest to 0.1 and
  0.7, which are \<open>7205759403792794 / 2^56\<close> and \<open>6305039478318694 / 2^53\<close>.
\<close>

definition random_random :: "rng \<Rightarrow> nat \<times> rng" where
  "random_random g = (shd g mod 2 ^ 53, stl g)"

definition gt_0_1 :: "nat \<Rightarrow> bool" where
  "gt_0_1 m = (7205759403792794 < 8 * m)"

definition gt_0_7 :: "nat \<Rightarrow> bool" where
  "gt_0_7 m = (6305039478318694 < m)"

subsection \<open>String formatting\<close>

definition digit_char :: "nat \<Rightarrow> char" where
  "digit_char d = ''0123456789'' ! d"

fun str_nat :: "nat \<Rightarrow> string" where
  "str_nat n =
     (if n < 10 then [digit_char n] else str_nat (n div 10) @ [digit_char (n mod 10)])"

declare str_nat.simps [simp del]

text \<open>\<open>str(i)\<close> of an integer.\<close>

definition str_int :: "int \<Rightarrow> string" where
  "str_int i = (if i < 0 then CHR ''-'' # str_nat (nat (- i)) else str_nat (nat i))"

text \<open>\<open>s.zfill(width)\<close>: zeros on the left, after a leading sign if there is one.\<close>

definition zfill :: "nat \<Rightarrow> string \<Rightarrow> string" where
  "zfill width s =
     (case s of
        [] \<Rightarrow> replicate width (CHR ''0'')
      | c # r \<Rightarrow>
          if c = CHR ''-'' \<or> c = CHR ''+''
          then c # replicate (width - length s) (CHR ''0'') @ r
          else replicate (width - length s) (CHR ''0'') @ s)"

text \<open>\<open>sep.join(parts)\<close>.\<close>

fun join :: "string \<Rightarrow> string list \<Rightarrow> string" where
  "join sep [] = []"
| "join sep [x] = x"
| "join sep (x # y # ys) = x @ sep @ join sep (y # ys)"

text \<open>
  \<open>s.split(c)\<close> for a one-character separator: the reading of a joined field. It is not
  called by the generator; it states what a joined field denotes.
\<close>

fun split_char :: "char \<Rightarrow> string \<Rightarrow> string list" where
  "split_char c [] = [[]]"
| "split_char c (x # xs) =
     (if x = c then [] # split_char c xs
      else (case split_char c xs of
              [] \<Rightarrow> [[x]]
            | w # ws \<Rightarrow> (x # w) # ws))"

text \<open>\<open>chr(65 + k)\<close> for \<open>k < 26\<close>: the \<open>k\<close>-th capital letter.\<close>

definition chr_65_plus :: "nat \<Rightarrow> char" where
  "chr_65_plus k = ''ABCDEFGHIJKLMNOPQRSTUVWXYZ'' ! k"

subsection \<open>Dates and times\<close>

text \<open>
  Every \<open>datetime\<close> of the program is \<open>datetime(2024, 1, 1)\<close> plus whole days and whole
  hours, so a \<open>datetime\<close> is the number of hours since 2024-01-01 00:00. A stored date
  is the text \<open>strftime("%Y-%m-%d")\<close> writes, which names a day and drops the time of
  day: \<open>Date d\<close> stands for the text of the day \<open>d\<close> days after 2024-01-01.
  \<open>pd.to_datetime\<close> reads such a text back as midnight of that day.
\<close>

type_synonym datetime = int

datatype date = Date int

definition datetime_2024_1_1 :: datetime where
  "datetime_2024_1_1 = 0"

definition timedelta_days :: "int \<Rightarrow> int" where
  "timedelta_days d = 24 * d"

definition timedelta_hours :: "int \<Rightarrow> int" where
  "timedelta_hours h = h"

definition strftime_ymd :: "datetime \<Rightarrow> date" where
  "strftime_ymd t = Date (t div 24)"

fun days_of :: "date \<Rightarrow> int" where
  "days_of (Date d) = d"

text \<open>\<open>pd.to_datetime(x)\<close>: \<open>None\<close> stays \<open>None\<close>.\<close>

definition to_datetime :: "date option \<Rightarrow> datetime option" where
  "to_datetime x = map_option (\<lambda>d. 24 * days_of d) x"

text \<open>
  \<open>int((a - b).total_seconds() / 3600)\<close>: the subtraction raises TypeError when an
  operand is \<open>None\<close>; \<open>int\<close> rounds towards zero.
\<close>

definition total_seconds_diff :: "datetime option \<Rightarrow> datetime option \<Rightarrow> error + int" where
  "total_seconds_diff a b =
     (case (a, b) of
        (Some ta, Some tb) \<Rightarrow> Inr (3600 * (ta - tb))
      | _ \<Rightarrow> Inl TypeError)"

definition int_div_3600 :: "int \<Rightarrow> int" where
  "int_div_3600 s = (if 0 \<le> s then s div 3600 else - ((- s) div 3600))"

subsection \<open>Tables\<close>

text \<open>
  A \<open>DataFrame\<close> is its column names and its rows. \<open>pd.DataFrame(records)\<close> of an empty
  list has no columns at all; \<open>df[c]\<close> raises KeyError when \<open>c\<close> is not a column.
\<close>

record 'r frame =
  columns :: "string list"
  rows :: "'r list"

definition DataFrame :: "string list \<Rightarrow> 'r list \<Rightarrow> 'r frame" where
  "DataFrame keys records =
     \<lparr>columns = (if records = [] then [] else keys), rows = records\<rparr>"

definition column_tolist :: "'r frame \<Rightarrow> string \<Rightarrow> ('r \<Rightarrow> 'v) \<Rightarrow> error + 'v list" where
  "column_tolist df c field =
     (if c \<in> set (columns df) then Inr (map field (rows df)) else Inl (KeyError c))"

section \<open>\<open>CarePortalDataGenerator\<close>: the fixed tables\<close>

record city =
  name :: string
  state :: string
  zips :: "string list"

definition need_categories :: "(string \<times> string list) list" where
  "need_categories =
     [(''Housing'', [''bed'', ''mattress'', ''bedding'', ''furniture'', ''rent assistance'']),
      (''Food'', [''groceries'', ''meal'', ''food pantry items'', ''baby formula'']),
      (''Clothing'', [''winter coat'', ''shoes'', ''school clothes'', ''baby clothes'']),
      (''School Supplies'',
         [''backpack'', ''notebooks'', ''pencils'', ''calculator'', ''school uniforms'']),
      (''Transportation'', [''gas card'', ''bus pass'', ''car repair'', ''uber/lyft credit'']),
      (''Childcare'', [''diapers'', ''wipes'', ''car seat'', ''crib'', ''stroller'']),
      (''Utilities'', [''electric bill'', ''water bill'', ''heating assistance'']),
      (''Medical'', [''prescription assistance'', ''medical supplies'', ''first aid''])]"

text \<open>\<open>list(self.need_categories.keys())\<close>: the keys in insertion order.\<close>

definition categories :: "string list" where
  "categories = map fst need_categories"

definition urgency_levels :: "string list" where
  "urgency_levels = [''Low'', ''Medium'', ''High'', ''Critical'']"

definition cities :: "city list" where
  "cities =
     [\<lparr>city.name = ''Atlanta'', state = ''GA'',
       zips = [''30301'', ''30302'', ''30303'', ''30304'', ''30305'']\<rparr>,
      \<lparr>city.name = ''Charlotte'', state = ''NC'',
       zips = [''28201'', ''28202'', ''28203'', ''28204'', ''28205'']\<rparr>,
      \<lparr>city.name = ''Nashville'', state = ''TN'',
       zips = [''37201'', ''37202'', ''37203'', ''37204'', ''37205'']\<rparr>,
      \<lparr>city.name = ''Birmingham'', state = ''AL'',
       zips = [''35201'', ''35202'', ''35203'', ''35204'', ''35205'']\<rparr>]"

definition church_names :: "string list" where
  "church_names =
     [''Grace Community Church'', ''First Baptist Church'', ''Hope Fellowship'',
      ''New Life Church'', ''Trinity Methodist'', ''Cornerstone Church'',
      ''Redemption Church'', ''Faith Assembly'', ''Crossroads Church'',
      ''Harvest Church'', ''The Bridge Church'', ''Lighthouse Church'']"

definition statuses :: "string list" where
  "statuses =
     [''Requested'', ''Matched'', ''In Progress'', ''Fulfilled'', ''Closed'', ''Cancelled'']"

section \<open>\<open>generate_donors\<close>\<close>

record donor =
  donor_id :: string
  name :: string
  email :: string
  phone :: string
  city :: string
  state :: string
  zip_code :: string
  specialties :: string
  avg_response_time_hours :: int
  total_fulfilled :: int
  last_donation_date :: date
  active :: bool

definition donor_columns :: "string list" where
  "donor_columns =
     [''donor_id'', ''name'', ''email'', ''phone'', ''city'', ''state'', ''zip_code'',
      ''specialties'', ''avg_response_time_hours'', ''total_fulfilled'',
      ''last_donation_date'', ''active'']"

text \<open>
  One pass of the loop body for index \<open>i\<close>. The draws are made in the order Python
  evaluates them: the three assignments first, then the entries of the dictionary from
  top to bottom.
\<close>

definition donor_record :: "nat \<Rightarrow> rng \<Rightarrow> error + (donor \<times> rng)" where
  "donor_record i g0 =
     (case random_choice cities g0 of
        Inl e \<Rightarrow> Inl e
      | Inr (cty, g1) \<Rightarrow>
          let (num_specialties, g2) = randint 1 3 g1 in
          (case random_sample categories num_specialties g2 of
             Inl e \<Rightarrow> Inl e
           | Inr (specs, g3) \<Rightarrow>
               let (ph, g4) = randint 1000 9999 g3 in
               (case random_choice (zips cty) g4 of
                  Inl e \<Rightarrow> Inl e
                | Inr (zp, g5) \<Rightarrow>
                    let (avg, g6) = randint 2 50 g5;
                        (tot, g7) = randint 0 50 g6;
                        (days, g8) = randint 0 364 g7;
                        (r, g9) = random_random g8
                    in Inr (\<lparr>donor_id = ''D'' @ zfill 4 (str_nat i),
                             name = ''Donor '' @ str_nat i,
                             email = ''donor'' @ str_nat i @ ''@example.com'',
                             phone = ''555-'' @ str_int ph,
                             city = city.name cty,
                             state = city.state cty,
                             zip_code = zp,
                             specialties = join '';'' specs,
                             avg_response_time_hours = avg,
                             total_fulfilled = tot,
                             last_donation_date =
                               strftime_ymd (datetime_2024_1_1 + timedelta_days days),
                             active = gt_0_1 r\<rparr>, g9))))"

text \<open>\<open>for i in range(1, n + 1): donors.append(...)\<close>\<close>

fun donors_loop :: "nat list \<Rightarrow> donor list \<Rightarrow> rng \<Rightarrow> error + (donor list \<times> rng)" where
  "donors_loop [] donors g = Inr (donors, g)"
| "donors_loop (i # rest) donors g =
     (case donor_record i g of
        Inl e \<Rightarrow> Inl e
      | Inr (d, g') \<Rightarrow> donors_loop rest (donors @ [d]) g')"

definition generate_donors :: "nat \<Rightarrow> rng \<Rightarrow> error + (donor frame \<times> rng)" where
  "generate_donors n g =
     (case donors_loop [1..<n + 1] [] g of
        Inl e \<Rightarrow> Inl e
      | Inr (donors, g') \<Rightarrow> Inr (DataFrame donor_columns donors, g'))"

section \<open>\<open>generate_churches\<close>\<close>

record church =
  church_id :: string
  name :: string
  city :: string
  state :: string
  zip_code :: string
  contact_name :: string
  contact_email :: string
  contact_phone :: string
  active_volunteers :: int
  total_fulfilled :: int

definition church_columns :: "string list" where
  "church_columns =
     [''church_id'', ''name'', ''city'', ''state'', ''zip_code'', ''contact_name'',
      ''contact_email'', ''contact_phone'', ''active_volunteers'', ''total_fulfilled'']"

text \<open>\<open>self.church_names[i % len(self.church_names)]\<close>, with the IndexError of a list
  index out of range.\<close>

definition church_base_name :: "nat \<Rightarrow> error + string" where
  "church_base_name i =
     (let k = i mod length church_names
      in if k < length church_names then Inr (church_names ! k) else Inl IndexError)"

definition church_record :: "nat \<Rightarrow> rng \<Rightarrow> error + (church \<times> rng)" where
  "church_record i g0 =
     (case random_choice cities g0 of
        Inl e \<Rightarrow> Inl e
      | Inr (cty, g1) \<Rightarrow>
          (case church_base_name i of
             Inl e \<Rightarrow> Inl e
           | Inr base_name \<Rightarrow>
               let nm = (if length church_names < i
                         then base_name @ '' - '' @ city.name cty
                         else base_name)
               in (case random_choice (zips cty) g1 of
                     Inl e \<Rightarrow> Inl e
                   | Inr (zp, g2) \<Rightarrow>
                       let (ph, g3) = randint 1000 9999 g2;
                           (vol, g4) = randint 10 60 g3;
                           (tot, g5) = randint 0 100 g4
                       in Inr (\<lparr>church_id = ''C'' @ zfill 3 (str_nat i),
                                name = nm,
                                city = city.name cty,
                                state = city.state cty,
                                zip_code = zp,
                                contact_name = ''Pastor '' @ [chr_65_plus (i mod 26)],
                                contact_email = ''contact'' @ str_nat i @ ''@church.org'',
                                contact_phone = ''555-'' @ str_int ph,
                                active_volunteers = vol,
                                total_fulfilled = tot\<rparr>, g5))))"

fun churches_loop :: "nat list \<Rightarrow> church list \<Rightarrow> rng \<Rightarrow> error + (church list \<times> rng)" where
  "churches_loop [] churches g = Inr (churches, g)"
| "churches_loop (i # rest) churches g =
     (case church_record i g of
        Inl e \<Rightarrow> Inl e
      | Inr (c, g') \<Rightarrow> churches_loop rest (churches @ [c]) g')"

definition generate_churches :: "nat \<Rightarrow> rng \<Rightarrow> error + (church frame \<times> rng)" where
  "generate_churches n g =
     (case churches_loop [1..<n + 1] [] g of
        Inl e \<Rightarrow> Inl e
      | Inr (churches, g') \<Rightarrow> Inr (DataFrame church_columns churches, g'))"

section \<open>\<open>generate_needs\<close>\<close>

record need =
  need_id :: string
  request_date :: date
  category :: string
  item_description :: string
  quantity :: int
  urgency :: string
  family_id :: string
  city :: string
  state :: string
  zip_code :: string
  status :: string
  matched_date :: "date option"
  fulfilled_date :: "date option"
  assigned_donor_id :: "string option"
  assigned_church_id :: "string option"
  notes_field :: string

definition need_columns :: "string list" where
  "need_columns =
     [''need_id'', ''request_date'', ''category'', ''item_description'', ''quantity'',
      ''urgency'', ''family_id'', ''city'', ''state'', ''zip_code'', ''status'',
      ''matched_date'', ''fulfilled_date'', ''assigned_donor_id'', ''assigned_church_id'',
      ''notes'']"

text \<open>
  \<open>if df is not None: assigned = random.choice(df[col].tolist())\<close>, the statement made
  once for the donor table and once for the church table. A table that is absent
  (\<open>None\<close>) leaves the assignment unset and draws nothing.
\<close>

definition assign_id ::
  "'r frame option \<Rightarrow> string \<Rightarrow> ('r \<Rightarrow> string) \<Rightarrow> rng \<Rightarrow> error + (string option \<times> rng)" where
  "assign_id df c field g =
     (case df of
        None \<Rightarrow> Inr (None, g)
      | Some t \<Rightarrow>
          (case column_tolist t c field of
             Inl e \<Rightarrow> Inl e
           | Inr ids \<Rightarrow>
               (case random_choice ids g of
                  Inl e \<Rightarrow> Inl e
                | Inr (x, g') \<Rightarrow> Inr (Some x, g'))))"

text \<open>
  The block that starts with the four \<open>None\<close> assignments and ends with the nested
  \<open>if status in ["Fulfilled", "Closed"]\<close>: it returns the matched and fulfilled
  timestamps (before they are formatted) and the two assignments.
\<close>

definition need_lifecycle ::
  "string \<Rightarrow> datetime \<Rightarrow> donor frame option \<Rightarrow> church frame option \<Rightarrow> rng \<Rightarrow>
   error + ((datetime option \<times> datetime option \<times> string option \<times> string option) \<times> rng)" where
  "need_lifecycle st request donors_df churches_df g0 =
     (if st \<in> set [''Matched'', ''In Progress'', ''Fulfilled'', ''Closed''] then
        let (h1, g1) = randint 1 48 g0;
            matched = request + timedelta_hours h1
        in (case assign_id donors_df ''donor_id'' donor_id g1 of
              Inl e \<Rightarrow> Inl e
            | Inr (assigned_donor, g2) \<Rightarrow>
                (case assign_id churches_df ''church_id'' church_id g2 of
                   Inl e \<Rightarrow> Inl e
                 | Inr (assigned_church, g3) \<Rightarrow>
                     if st \<in> set [''Fulfilled'', ''Closed''] then
                       let (h2, g4) = randint 1 120 g3
                       in Inr ((Some matched, Some (matched + timedelta_hours h2),
                                assigned_donor, assigned_church), g4)
                     else Inr ((Some matched, None, assigned_donor, assigned_church), g3)))
      else Inr ((None, None, None, None), g0))"

text \<open>\<open>self.need_categories[category]\<close>\<close>

definition category_items :: "string \<Rightarrow> error + string list" where
  "category_items c =
     (case map_of need_categories c of
        None \<Rightarrow> Inl (KeyError c)
      | Some items \<Rightarrow> Inr items)"

definition need_record ::
  "nat \<Rightarrow> donor frame option \<Rightarrow> church frame option \<Rightarrow> rng \<Rightarrow> error + (need \<times> rng)" where
  "need_record i donors_df churches_df g0 =
     (case random_choice categories g0 of
        Inl e \<Rightarrow> Inl e
      | Inr (cat, g1) \<Rightarrow>
     (case category_items cat of
        Inl e \<Rightarrow> Inl e
      | Inr items \<Rightarrow>
     (case random_choice items g1 of
        Inl e \<Rightarrow> Inl e
      | Inr (item, g2) \<Rightarrow>
     (case random_choice cities g2 of
        Inl e \<Rightarrow> Inl e
      | Inr (cty, g3) \<Rightarrow>
          let (days, g4) = randint 0 364 g3;
              request = datetime_2024_1_1 + timedelta_days days
          in
     (case random_choice statuses g4 of
        Inl e \<Rightarrow> Inl e
      | Inr (st, g5) \<Rightarrow>
     (case need_lifecycle st request donors_df churches_df g5 of
        Inl e \<Rightarrow> Inl e
      | Inr ((matched, fulfilled, assigned_donor, assigned_church), g6) \<Rightarrow>
          let (qty, g7) = randint 1 6 g6 in
     (case random_choice urgency_levels g7 of
        Inl e \<Rightarrow> Inl e
      | Inr (urg, g8) \<Rightarrow>
          let (fam, g9) = randint 1 200 g8 in
     (case random_choice (zips cty) g9 of
        Inl e \<Rightarrow> Inl e
      | Inr (zp, g10) \<Rightarrow>
          let (r, g11) = random_random g10
          in Inr (\<lparr>need_id = ''N'' @ zfill 5 (str_nat i),
                   request_date = strftime_ymd request,
                   category = cat,
                   item_description = item,
                   quantity = qty,
                   urgency = urg,
                   family_id = ''F'' @ zfill 4 (str_int fam),
                   city = city.name cty,
                   state = city.state cty,
                   zip_code = zp,
                   status = st,
                   matched_date = map_option strftime_ymd matched,
                   fulfilled_date = map_option strftime_ymd fulfilled,
                   assigned_donor_id = assigned_donor,
                   assigned_church_id = assigned_church,
                   notes_field = (if gt_0_7 r then ''Urgent need for family in crisis'' else [])\<rparr>,
                  g11)))))))))"

fun needs_loop ::
  "nat list \<Rightarrow> donor frame option \<Rightarrow> church frame option \<Rightarrow> need list \<Rightarrow> rng \<Rightarrow>
   error + (need list \<times> rng)" where
  "needs_loop [] donors_df churches_df needs g = Inr (needs, g)"
| "needs_loop (i # rest) donors_df churches_df needs g =
     (case need_record i donors_df churches_df g of
        Inl e \<Rightarrow> Inl e
      | Inr (nd, g') \<Rightarrow> needs_loop rest donors_df churches_df (needs @ [nd]) g')"

definition generate_needs ::
  "nat \<Rightarrow> donor frame option \<Rightarrow> church frame option \<Rightarrow> rng \<Rightarrow> error + (need frame \<times> rng)" where
  "generate_needs n donors_df churches_df g =
     (case needs_loop [1..<n + 1] donors_df churches_df [] g of
        Inl e \<Rightarrow> Inl e
      | Inr (needs, g') \<Rightarrow> Inr (DataFrame need_columns needs, g'))"

section \<open>\<open>generate_fulfillments\<close>\<close>

record fulfillment =
  fulfillment_id :: string
  need_id :: string
  donor_id :: "string option"
  church_id :: "string option"
  request_date :: date
  matched_date :: "date option"
  fulfilled_date :: "date option"
  response_time_hours :: int
  fulfillment_time_hours :: int
  category :: string
  donor_rating :: int

definition fulfillment_columns :: "string list" where
  "fulfillment_columns =
     [''fulfillment_id'', ''need_id'', ''donor_id'', ''church_id'', ''request_date'',
      ''matched_date'', ''fulfilled_date'', ''response_time_hours'',
      ''fulfillment_time_hours'', ''category'', ''donor_rating'']"

text \<open>
  The loop body for one retained row; \<open>k\<close> is \<open>len(fulfillments)\<close> when the row is
  reached.
\<close>

definition fulfillment_record :: "nat \<Rightarrow> need \<Rightarrow> rng \<Rightarrow> error + (fulfillment \<times> rng)" where
  "fulfillment_record k nd g =
     (let request_time = to_datetime (Some (need.request_date nd));
          matched_time = to_datetime (need.matched_date nd);
          fulfilled_time = to_datetime (need.fulfilled_date nd)
      in (case total_seconds_diff matched_time request_time of
            Inl e \<Rightarrow> Inl e
          | Inr s1 \<Rightarrow>
              let response_hours = max 1 (int_div_3600 s1)
              in (case total_seconds_diff fulfilled_time matched_time of
                    Inl e \<Rightarrow> Inl e
                  | Inr s2 \<Rightarrow>
                      let fulfillment_hours = max 1 (int_div_3600 s2);
                          (rating, g') = randint 4 5 g
                      in Inr (\<lparr>fulfillment_id = ''FH'' @ zfill 5 (str_nat (k + 1)),
                               need_id = need.need_id nd,
                               donor_id = assigned_donor_id nd,
                               church_id = assigned_church_id nd,
                               request_date = need.request_date nd,
                               matched_date = need.matched_date nd,
                               fulfilled_date = need.fulfilled_date nd,
                               response_time_hours = response_hours,
                               fulfillment_time_hours = fulfillment_hours,
                               category = need.category nd,
                               donor_rating = rating\<rparr>, g'))))"

fun fulfillments_loop ::
  "need list \<Rightarrow> fulfillment list \<Rightarrow> rng \<Rightarrow> error + (fulfillment list \<times> rng)" where
  "fulfillments_loop [] fulfillments g = Inr (fulfillments, g)"
| "fulfillments_loop (nd # rest) fulfillments g =
     (case fulfillment_record (length fulfillments) nd g of
        Inl e \<Rightarrow> Inl e
      | Inr (f, g') \<Rightarrow> fulfillments_loop rest (fulfillments @ [f]) g')"

text \<open>\<open>status in ["Fulfilled", "Closed"]\<close>, the test of the row filter.\<close>

definition is_fulfilled :: "need \<Rightarrow> bool" where
  "is_fulfilled nd = (status nd \<in> set [''Fulfilled'', ''Closed''])"

definition generate_fulfillments :: "need frame \<Rightarrow> rng \<Rightarrow> error + (fulfillment frame \<times> rng)" where
  "generate_fulfillments needs_df g =
     (case column_tolist needs_df ''status'' status of
        Inl e \<Rightarrow> Inl e
      | Inr sts \<Rightarrow>
          let fulfilled_needs = filter is_fulfilled (rows needs_df)
          in (case fulfillments_loop fulfilled_needs [] g of
                Inl e \<Rightarrow> Inl e
              | Inr (fulfillments, g') \<Rightarrow>
                  Inr (DataFrame fulfillment_columns fulfillments, g')))"

section \<open>\<open>generate_all\<close>\<close>

record datasets =
  donors :: "donor frame"
  churches :: "church frame"
  needs :: "need frame"
  fulfillments :: "fulfillment frame"


section \<open>Running the module: seeding\<close>



section \<open>Vocabulary of the properties\<close>

text \<open>A table that has the column \<open>c\<close> and at least one row.\<close>

definition nonempty_with :: "'r frame \<Rightarrow> string \<Rightarrow> bool" where
  "nonempty_with t c = (c \<in> set (columns t) \<and> rows t \<noteq> [])"

text \<open>A table argument from which an identifier can always be taken: absent, or
  present with the column and a row.\<close>

definition usable :: "'r frame option \<Rightarrow> string \<Rightarrow> bool" where
  "usable df c = (case df of None \<Rightarrow> True | Some t \<Rightarrow> nonempty_with t c)"

text \<open>The two status tests of \<open>generate_needs\<close>.\<close>

definition past_requested :: "string \<Rightarrow> bool" where
  "past_requested st = (st \<in> set [''Matched'', ''In Progress'', ''Fulfilled'', ''Closed''])"

definition completed :: "string \<Rightarrow> bool" where
  "completed st = (st \<in> set [''Fulfilled'', ''Closed''])"


section \<open>Lemmas\<close>

subsection \<open>Library calls\<close>

lemma random_choice_in: "random_choice xs g = Inr (x, g') \<Longrightarrow> x \<in> set xs"
  by (auto simp: random_choice_def split: if_splits)

lemma random_choice_total: "xs \<noteq> [] \<Longrightarrow> \<exists>x. random_choice xs g = Inr (x, stl g)"
  by (simp add: random_choice_def)

lemma randint_bounds: "a \<le> b \<Longrightarrow> randint a b g = (v, g') \<Longrightarrow> a \<le> v \<and> v \<le> b"
proof -
  assume ab: "a \<le> b" and r: "randint a b g = (v, g')"
  have pos: "0 < nat (b - a + 1)" using ab by simp
  have "shd g mod nat (b - a + 1) < nat (b - a + 1)" using pos by simp
  then have "int (shd g mod nat (b - a + 1)) < b - a + 1" using ab by linarith
  moreover have "v = a + int (shd g mod nat (b - a + 1))" using r by (simp add: randint_def)
  ultimately show ?thesis by simp
qed

lemma remove_nth_props:
  assumes "j < length pool" "distinct pool"
  shows "length (take j pool @ drop (Suc j) pool) = length pool - 1"
    and "distinct (take j pool @ drop (Suc j) pool)"
    and "set (take j pool @ drop (Suc j) pool) \<subseteq> set pool"
    and "pool ! j \<notin> set (take j pool @ drop (Suc j) pool)"
proof -
  have p: "pool = take j pool @ pool ! j # drop (Suc j) pool"
    using assms(1) by (simp add: id_take_nth_drop)
  show "length (take j pool @ drop (Suc j) pool) = length pool - 1"
    using assms(1) by simp
  have d: "distinct (take j pool @ pool ! j # drop (Suc j) pool)"
    using assms(2) p by simp
  then show "distinct (take j pool @ drop (Suc j) pool)" by simp
  show "set (take j pool @ drop (Suc j) pool) \<subseteq> set pool"
    by (auto dest: in_set_takeD in_set_dropD)
  show "pool ! j \<notin> set (take j pool @ drop (Suc j) pool)"
    using d by simp
qed

lemma sample_loop_props:
  "k \<le> length pool \<Longrightarrow> distinct pool \<Longrightarrow> sample_loop pool k g = (xs, g') \<Longrightarrow>
   length xs = k \<and> distinct xs \<and> set xs \<subseteq> set pool"
proof (induction k arbitrary: pool g xs g')
  case 0
  then show ?case by simp
next
  case (Suc k)
  define j where "j = shd g mod length pool"
  define pool' where "pool' = take j pool @ drop (Suc j) pool"
  have "0 < length pool" using Suc.prems(1) by linarith
  then have jl: "j < length pool" by (simp add: j_def)
  obtain ys h where r: "sample_loop pool' k (stl g) = (ys, h)" by fastforce
  have xs: "xs = pool ! j # ys"
    using Suc.prems(3) r by (simp add: Let_def j_def pool'_def)
  have len: "k \<le> length pool'"
    using remove_nth_props(1) [OF jl Suc.prems(2)] Suc.prems(1) by (simp add: pool'_def)
  have dis: "distinct pool'"
    using remove_nth_props(2) [OF jl Suc.prems(2)] by (simp add: pool'_def)
  have ih: "length ys = k \<and> distinct ys \<and> set ys \<subseteq> set pool'"
    using Suc.IH [OF len dis r] .
  have sub: "set pool' \<subseteq> set pool"
    using remove_nth_props(3) [OF jl Suc.prems(2)] by (simp add: pool'_def)
  have notin: "pool ! j \<notin> set pool'"
    using remove_nth_props(4) [OF jl Suc.prems(2)] by (simp add: pool'_def)
  show ?case
    using ih sub notin jl xs by auto
qed

lemma split_char_no_sep: "c \<notin> set x \<Longrightarrow> split_char c x = [x]"
  by (induction x) auto

lemma split_char_append: "c \<notin> set x \<Longrightarrow> split_char c (x @ c # r) = x # split_char c r"
  by (induction x) auto

lemma split_join:
  "xs \<noteq> [] \<Longrightarrow> \<forall>x\<in>set xs. c \<notin> set x \<Longrightarrow> split_char c (join [c] xs) = xs"
proof (induction "[c]" xs rule: join.induct)
  case 1
  then show ?case by simp
next
  case (2 x)
  then show ?case by (simp add: split_char_no_sep)
next
  case (3 x y ys)
  then show ?case by (simp add: split_char_append)
qed

lemma categories_eq:
  "categories = [''Housing'', ''Food'', ''Clothing'', ''School Supplies'', ''Transportation'',
                 ''Childcare'', ''Utilities'', ''Medical'']"
  by (simp add: categories_def need_categories_def)

lemma distinct_categories: "distinct categories"
  by (simp add: categories_eq)

lemma length_categories: "length categories = 8"
  by (simp add: categories_eq)

lemma categories_no_semicolon: "x \<in> set categories \<Longrightarrow> CHR '';'' \<notin> set x"
  by (auto simp: categories_eq)

lemma donor_record_specialties:
  assumes "donor_record i g = Inr (d, g')"
  shows "\<exists>cs. specialties d = join '';'' cs \<and> 1 \<le> length cs \<and> length cs \<le> 3 \<and>
              distinct cs \<and> set cs \<subseteq> set categories"
proof -
  from assms obtain g1 k g2 cs g3 where
    k: "randint 1 3 g1 = (k, g2)" and
    s: "random_sample categories k g2 = Inr (cs, g3)" and
    d: "specialties d = join '';'' cs"
    by (auto simp: donor_record_def Let_def split: sum.splits prod.splits)
  have kb: "1 \<le> k \<and> k \<le> 3" using randint_bounds [OF _ k] by simp
  have sl: "sample_loop categories (nat k) g2 = (cs, g3)"
    using s by (auto simp: random_sample_def split: if_splits)
  have "nat k \<le> length categories" using kb unfolding length_categories by linarith
  from sample_loop_props [OF this distinct_categories sl]
  have "length cs = nat k \<and> distinct cs \<and> set cs \<subseteq> set categories" .
  moreover have "1 \<le> nat k \<and> nat k \<le> 3" using kb by linarith
  ultimately show ?thesis using d by (intro exI [of _ cs]) simp
qed

subsection \<open>The lifecycle block\<close>

lemma assign_id_None: "assign_id None c field g = Inr (None, g)"
  by (simp add: assign_id_def)

lemma assign_id_Some_Inr:
  "assign_id (Some t) c field g = Inr (a, g') \<Longrightarrow>
   \<exists>x. a = Some x \<and> x \<in> field ` set (rows t) \<and> rows t \<noteq> [] \<and> c \<in> set (columns t)"
  by (auto simp: assign_id_def column_tolist_def random_choice_def split: if_splits)

lemma assign_id_total:
  "usable df c \<Longrightarrow> \<exists>a g'. assign_id df c field g = Inr (a, g')"
  by (auto simp: usable_def nonempty_with_def assign_id_def column_tolist_def random_choice_def
           split: option.splits)

lemma assign_id_empty: "rows t = [] \<Longrightarrow> \<exists>e. assign_id (Some t) c field g = Inl e"
  by (auto simp: assign_id_def column_tolist_def random_choice_def)

lemma assign_id_unset_iff:
  "assign_id df c field g = Inr (a, g') \<Longrightarrow> (a = None) = (df = None)"
  by (cases df) (auto simp: assign_id_None dest: assign_id_Some_Inr)

lemma need_lifecycle_not_past:
  "\<not> past_requested st \<Longrightarrow>
   need_lifecycle st request dd cd g = Inr ((None, None, None, None), g)"
  by (simp add: need_lifecycle_def past_requested_def)

lemma need_lifecycle_past:
  assumes "need_lifecycle st request dd cd g = Inr ((m, f, ad, ac), g')"
      and "past_requested st"
  shows "\<exists>h1. 1 \<le> h1 \<and> h1 \<le> 48 \<and> m = Some (request + h1) \<and>
           (ad = None) = (dd = None) \<and> (ac = None) = (cd = None) \<and>
           (if completed st
            then \<exists>h2. 1 \<le> h2 \<and> h2 \<le> 120 \<and> f = Some (request + h1 + h2)
            else f = None)"
proof -
  obtain h1 g1 where h1: "randint 1 48 g = (h1, g1)" by fastforce
  have b1: "1 \<le> h1 \<and> h1 \<le> 48" using randint_bounds [OF _ h1] by simp
  from assms h1 obtain g2 g3 where
    d: "assign_id dd ''donor_id'' donor.donor_id g1 = Inr (ad, g2)" and
    c: "assign_id cd ''church_id'' church.church_id g2 = Inr (ac, g3)" and
    rest: "(if st \<in> set [''Fulfilled'', ''Closed''] then
              let (h2, g4) = randint 1 120 g3
              in Inr ((Some (request + h1), Some (request + h1 + h2), ad, ac), g4)
            else Inr ((Some (request + h1), None, ad, ac), g3)) = Inr ((m, f, ad, ac), g')"
    unfolding need_lifecycle_def past_requested_def
    by (auto simp: timedelta_hours_def Let_def split: sum.splits prod.splits if_splits)
  have m: "m = Some (request + h1)"
    using rest by (auto split: if_splits prod.splits)
  have f: "if completed st
           then \<exists>h2. 1 \<le> h2 \<and> h2 \<le> 120 \<and> f = Some (request + h1 + h2)
           else f = None"
  proof (cases "completed st")
    case True
    obtain h2 g4 where h2: "randint 1 120 g3 = (h2, g4)" by fastforce
    have "1 \<le> h2 \<and> h2 \<le> 120" using randint_bounds [OF _ h2] by simp
    moreover have "f = Some (request + h1 + h2)"
      using rest True h2 by (simp add: completed_def)
    ultimately show ?thesis using True by auto
  next
    case False
    then show ?thesis using rest by (simp add: completed_def)
  qed
  show ?thesis
    using b1 m f assign_id_unset_iff [OF d] assign_id_unset_iff [OF c]
    by (intro exI [of _ h1]) simp
qed

lemma need_lifecycle_total:
  assumes "usable dd ''donor_id''" "usable cd ''church_id''"
  shows "\<exists>res g'. need_lifecycle st request dd cd g = Inr (res, g')"
proof (cases "past_requested st")
  case False
  then show ?thesis using need_lifecycle_not_past by blast
next
  case True
  obtain h1 g1 where h1: "randint 1 48 g = (h1, g1)" by fastforce
  obtain ad g2 where d: "assign_id dd ''donor_id'' donor.donor_id g1 = Inr (ad, g2)"
    using assign_id_total [OF assms(1)] by blast
  obtain ac g3 where c: "assign_id cd ''church_id'' church.church_id g2 = Inr (ac, g3)"
    using assign_id_total [OF assms(2)] by blast
  show ?thesis
    unfolding need_lifecycle_def
    by (simp add: h1 d c Let_def split: prod.splits)
qed

lemma need_lifecycle_empty_tables:
  assumes "rows ds = []" "need_lifecycle st request (Some ds) cd g = Inr (res, g')"
  shows "\<not> past_requested st"
proof
  assume p: "past_requested st"
  obtain h1 g1 where h1: "randint 1 48 g = (h1, g1)" by fastforce
  obtain e where "assign_id (Some ds) ''donor_id'' donor.donor_id g1 = Inl e"
    using assign_id_empty [OF assms(1)] by blast
  then show False
    using assms(2) p h1 unfolding need_lifecycle_def past_requested_def
    by (simp add: Let_def)
qed

subsection \<open>One need record\<close>

lemma cities_zips: "cty \<in> set cities \<Longrightarrow> zips cty \<noteq> []"
  by (auto simp: cities_def)

lemma cities_nonempty: "cities \<noteq> []"
  by (simp add: cities_def)

lemma category_items_total:
  "cat \<in> set categories \<Longrightarrow> \<exists>items. category_items cat = Inr items \<and> items \<noteq> []"
  by (auto simp: categories_eq category_items_def need_categories_def)

lemma strftime_ymd_days: "strftime_ymd (24 * d) = Date d"
  by (simp add: strftime_ymd_def)

lemma need_record_Inr:
  assumes "need_record i dd cd g = Inr (nd, g')"
  shows "\<exists>days m f h h'.
           0 \<le> days \<and> days \<le> 364 \<and> status nd \<in> set statuses \<and>
           need_lifecycle (status nd) (24 * days) dd cd h =
             Inr ((m, f, assigned_donor_id nd, assigned_church_id nd), h') \<and>
           need.request_date nd = Date days \<and>
           need.matched_date nd = map_option strftime_ymd m \<and>
           need.fulfilled_date nd = map_option strftime_ymd f \<and>
           need.need_id nd = ''N'' @ zfill 5 (str_nat i)"
proof -
  from assms obtain g3 days g4 st g5 m f ad ac g6 where
    d: "randint 0 364 g3 = (days, g4)" and
    s: "random_choice statuses g4 = Inr (st, g5)" and
    l: "need_lifecycle st (datetime_2024_1_1 + timedelta_days days) dd cd g5 =
          Inr ((m, f, ad, ac), g6)" and
    nd: "status nd = st" "assigned_donor_id nd = ad" "assigned_church_id nd = ac"
        "need.request_date nd = strftime_ymd (datetime_2024_1_1 + timedelta_days days)"
        "need.matched_date nd = map_option strftime_ymd m"
        "need.fulfilled_date nd = map_option strftime_ymd f"
        "need.need_id nd = ''N'' @ zfill 5 (str_nat i)"
    unfolding need_record_def
    by (auto simp: Let_def split: sum.splits prod.splits)
  have b: "0 \<le> days \<and> days \<le> 364" using randint_bounds [OF _ d] by simp
  have t: "datetime_2024_1_1 + timedelta_days days = 24 * days"
    by (simp add: datetime_2024_1_1_def timedelta_days_def)
  show ?thesis
    using b random_choice_in [OF s] l nd unfolding t strftime_ymd_days
    by (intro exI [of _ days] exI [of _ m] exI [of _ f] exI [of _ g5] exI [of _ g6]) simp
qed

lemma need_record_total:
  assumes "usable dd ''donor_id''" "usable cd ''church_id''"
  shows "\<exists>nd g'. need_record i dd cd g = Inr (nd, g')"
proof -
  obtain cat g1 where c: "random_choice categories g = Inr (cat, g1)"
    using random_choice_total [of categories g] by (auto simp: categories_eq)
  obtain items where it: "category_items cat = Inr items" "items \<noteq> []"
    using category_items_total [OF random_choice_in [OF c]] by blast
  obtain item g2 where i: "random_choice items g1 = Inr (item, g2)"
    using random_choice_total [OF it(2)] by blast
  obtain cty g3 where ct: "random_choice cities g2 = Inr (cty, g3)"
    using random_choice_total [OF cities_nonempty] by blast
  obtain days g4 where d: "randint 0 364 g3 = (days, g4)" by fastforce
  obtain st g5 where s: "random_choice statuses g4 = Inr (st, g5)"
    using random_choice_total [of statuses g4] by (auto simp: statuses_def)
  obtain res g6 where
    l: "need_lifecycle st (datetime_2024_1_1 + timedelta_days days) dd cd g5 = Inr (res, g6)"
    using need_lifecycle_total [OF assms] by blast
  obtain qty g7 where q: "randint 1 6 g6 = (qty, g7)" by fastforce
  obtain urg g8 where u: "random_choice urgency_levels g7 = Inr (urg, g8)"
    using random_choice_total [of urgency_levels g7] by (auto simp: urgency_levels_def)
  obtain fam g9 where fm: "randint 1 200 g8 = (fam, g9)" by fastforce
  obtain zp g10 where z: "random_choice (zips cty) g9 = Inr (zp, g10)"
    using random_choice_total [OF cities_zips [OF random_choice_in [OF ct]]] by blast
  show ?thesis
    unfolding need_record_def
    by (simp add: c it i ct d s l q u fm z Let_def split: prod.splits)
qed

lemma statuses_cases:
  "st \<in> set statuses \<Longrightarrow> \<not> past_requested st \<Longrightarrow> st = ''Requested'' \<or> st = ''Cancelled''"
  by (auto simp: statuses_def past_requested_def)

lemma not_past_requested: "st = ''Requested'' \<or> st = ''Cancelled'' \<Longrightarrow> \<not> past_requested st"
  by (auto simp: past_requested_def)

lemma completed_past: "completed st \<Longrightarrow> past_requested st"
  by (auto simp: completed_def past_requested_def)

lemma need_record_unset_iff:
  assumes "need_record i dd cd g = Inr (nd, g')"
  shows "(status nd = ''Requested'' \<or> status nd = ''Cancelled'') =
         (need.matched_date nd = None \<and> need.fulfilled_date nd = None \<and>
          assigned_donor_id nd = None \<and> assigned_church_id nd = None)"
proof -
  from need_record_Inr [OF assms] obtain days m f h h' where
    st: "status nd \<in> set statuses" and
    l: "need_lifecycle (status nd) (24 * days) dd cd h =
          Inr ((m, f, assigned_donor_id nd, assigned_church_id nd), h')" and
    md: "need.matched_date nd = map_option strftime_ymd m" and
    fd: "need.fulfilled_date nd = map_option strftime_ymd f"
    by blast
  show ?thesis
  proof (cases "past_requested (status nd)")
    case True
    from need_lifecycle_past [OF l True] have "m \<noteq> None" by auto
    then have "need.matched_date nd \<noteq> None" using md by simp
    moreover have "\<not> (status nd = ''Requested'' \<or> status nd = ''Cancelled'')"
      using True not_past_requested by blast
    ultimately show ?thesis by simp
  next
    case False
    from l need_lifecycle_not_past [OF False, of "24 * days" dd cd h]
    have "m = None \<and> f = None \<and> assigned_donor_id nd = None \<and> assigned_church_id nd = None"
      by simp
    then show ?thesis using md fd statuses_cases [OF st False] by simp
  qed
qed

lemma div24_mono: "(a::int) \<le> b \<Longrightarrow> a div 24 \<le> b div 24"
  by (rule zdiv_mono1) simp_all

lemma need_record_completed_dates:
  assumes "need_record i dd cd g = Inr (nd, g')" "completed (status nd)"
  shows "\<exists>r m f. need.request_date nd = Date r \<and> need.matched_date nd = Some (Date m) \<and>
           need.fulfilled_date nd = Some (Date f) \<and> r \<le> m \<and> m \<le> f"
proof -
  from need_record_Inr [OF assms(1)] obtain days m f h h' where
    l: "need_lifecycle (status nd) (24 * days) dd cd h =
          Inr ((m, f, assigned_donor_id nd, assigned_church_id nd), h')" and
    rd: "need.request_date nd = Date days" and
    md: "need.matched_date nd = map_option strftime_ymd m" and
    fd: "need.fulfilled_date nd = map_option strftime_ymd f"
    by blast
  from need_lifecycle_past [OF l completed_past [OF assms(2)]] assms(2)
  obtain h1 h2 where
    h: "1 \<le> h1" "1 \<le> h2" "m = Some (24 * days + h1)" "f = Some (24 * days + h1 + h2)"
    by auto
  have a: "days \<le> (24 * days + h1) div 24"
    using div24_mono [of "24 * days" "24 * days + h1"] h(1) by simp
  have b: "(24 * days + h1) div 24 \<le> (24 * days + h1 + h2) div 24"
    using div24_mono [of "24 * days + h1" "24 * days + h1 + h2"] h(2) by simp
  show ?thesis
    using rd md fd h(3,4) a b
    by (intro exI [of _ days] exI [of _ "(24 * days + h1) div 24"]
              exI [of _ "(24 * days + h1 + h2) div 24"])
       (simp add: strftime_ymd_def)
qed

lemma need_record_assigned:
  assumes "need_record i dd cd g = Inr (nd, g')"
  shows "(assigned_donor_id nd = None) = (dd = None \<or> \<not> past_requested (status nd))"
    and "(assigned_church_id nd = None) = (cd = None \<or> \<not> past_requested (status nd))"
proof -
  from need_record_Inr [OF assms] obtain days m f h h' where
    l: "need_lifecycle (status nd) (24 * days) dd cd h =
          Inr ((m, f, assigned_donor_id nd, assigned_church_id nd), h')"
    by blast
  have "(assigned_donor_id nd = None) = (dd = None \<or> \<not> past_requested (status nd)) \<and>
        (assigned_church_id nd = None) = (cd = None \<or> \<not> past_requested (status nd))"
  proof (cases "past_requested (status nd)")
    case True
    from need_lifecycle_past [OF l True] show ?thesis using True by auto
  next
    case False
    from l need_lifecycle_not_past [OF False, of "24 * days" dd cd h]
    show ?thesis using False by simp
  qed
  then show "(assigned_donor_id nd = None) = (dd = None \<or> \<not> past_requested (status nd))"
    and "(assigned_church_id nd = None) = (cd = None \<or> \<not> past_requested (status nd))"
    by simp_all
qed

lemma need_record_empty_donors:
  assumes "need_record i (Some ds) cd g = Inr (nd, g')" "rows ds = []"
  shows "status nd = ''Requested'' \<or> status nd = ''Cancelled''"
proof -
  from need_record_Inr [OF assms(1)] obtain days m f h h' where
    st: "status nd \<in> set statuses" and
    l: "need_lifecycle (status nd) (24 * days) (Some ds) cd h =
          Inr ((m, f, assigned_donor_id nd, assigned_church_id nd), h')"
    by blast
  from need_lifecycle_empty_tables [OF assms(2) l] statuses_cases [OF st]
  show ?thesis by blast
qed

subsection \<open>The loops\<close>

lemma upt_rows:
  assumes "list_all2 P [1..<n + 1] new"
  shows "length new = n \<and> (\<forall>k<n. P (k + 1) (new ! k))"
proof -
  have "length [1..<n + 1] = length new" using assms by (rule list_all2_lengthD)
  then have l: "length new = n" by (simp del: upt_Suc)
  have "P ([1..<n + 1] ! k) (new ! k)" if "k < n" for k
    using assms that l by (simp add: list_all2_conv_all_nth del: upt_Suc)
  moreover have "[1..<n + 1] ! k = k + 1" if "k < n" for k
    using that by (simp del: upt_Suc)
  ultimately show ?thesis using l by simp
qed

lemma donors_loop_rel:
  "donors_loop idx acc g = Inr (out, g') \<Longrightarrow>
   \<exists>new. out = acc @ new \<and> list_all2 (\<lambda>i r. \<exists>h h'. donor_record i h = Inr (r, h')) idx new"
proof (induction idx arbitrary: acc g)
  case Nil
  then show ?case by simp
next
  case (Cons i rest)
  from Cons.prems obtain r g1 where
    r: "donor_record i g = Inr (r, g1)" and
    l: "donors_loop rest (acc @ [r]) g1 = Inr (out, g')"
    by (auto split: sum.splits)
  from Cons.IH [OF l] obtain new where
    "out = (acc @ [r]) @ new"
    "list_all2 (\<lambda>i r. \<exists>h h'. donor_record i h = Inr (r, h')) rest new"
    by blast
  then show ?case using r by (intro exI [of _ "r # new"]) auto
qed

lemma churches_loop_rel:
  "churches_loop idx acc g = Inr (out, g') \<Longrightarrow>
   \<exists>new. out = acc @ new \<and> list_all2 (\<lambda>i r. \<exists>h h'. church_record i h = Inr (r, h')) idx new"
proof (induction idx arbitrary: acc g)
  case Nil
  then show ?case by simp
next
  case (Cons i rest)
  from Cons.prems obtain r g1 where
    r: "church_record i g = Inr (r, g1)" and
    l: "churches_loop rest (acc @ [r]) g1 = Inr (out, g')"
    by (auto split: sum.splits)
  from Cons.IH [OF l] obtain new where
    "out = (acc @ [r]) @ new"
    "list_all2 (\<lambda>i r. \<exists>h h'. church_record i h = Inr (r, h')) rest new"
    by blast
  then show ?case using r by (intro exI [of _ "r # new"]) auto
qed

lemma needs_loop_rel:
  "needs_loop idx dd cd acc g = Inr (out, g') \<Longrightarrow>
   \<exists>new. out = acc @ new \<and>
         list_all2 (\<lambda>i r. \<exists>h h'. need_record i dd cd h = Inr (r, h')) idx new"
proof (induction idx arbitrary: acc g)
  case Nil
  then show ?case by simp
next
  case (Cons i rest)
  from Cons.prems obtain r g1 where
    r: "need_record i dd cd g = Inr (r, g1)" and
    l: "needs_loop rest dd cd (acc @ [r]) g1 = Inr (out, g')"
    by (auto split: sum.splits)
  from Cons.IH [OF l] obtain new where
    "out = (acc @ [r]) @ new"
    "list_all2 (\<lambda>i r. \<exists>h h'. need_record i dd cd h = Inr (r, h')) rest new"
    by blast
  then show ?case using r by (intro exI [of _ "r # new"]) auto
qed

lemma fulfillments_loop_rel:
  "fulfillments_loop nds acc g = Inr (out, g') \<Longrightarrow>
   \<exists>new. out = acc @ new \<and> length new = length nds \<and>
         (\<forall>j<length nds. \<exists>h h'. fulfillment_record (length acc + j) (nds ! j) h = Inr (new ! j, h'))"
proof (induction nds arbitrary: acc g)
  case Nil
  then show ?case by simp
next
  case (Cons nd rest)
  from Cons.prems obtain f g1 where
    r: "fulfillment_record (length acc) nd g = Inr (f, g1)" and
    l: "fulfillments_loop rest (acc @ [f]) g1 = Inr (out, g')"
    by (auto split: sum.splits)
  from Cons.IH [OF l] obtain new where
    n: "out = (acc @ [f]) @ new" "length new = length rest"
       "\<forall>j<length rest. \<exists>h h'.
          fulfillment_record (length (acc @ [f]) + j) (rest ! j) h = Inr (new ! j, h')"
    by blast
  have "\<exists>h h'. fulfillment_record (length acc + j) ((nd # rest) ! j) h = Inr ((f # new) ! j, h')"
    if "j < length (nd # rest)" for j
  proof (cases j)
    case 0
    then show ?thesis using r by auto
  next
    case (Suc j')
    then have "j' < length rest" using that by simp
    then show ?thesis using n(3) Suc by simp
  qed
  then show ?case using n(1,2) by (intro exI [of _ "f # new"]) simp
qed

subsection \<open>The generators\<close>

lemma usable_Some: "nonempty_with t c \<Longrightarrow> usable (Some t) c"
  by (simp add: usable_def nonempty_with_def)

lemma usable_None: "usable None c"
  by (simp add: usable_def)

lemma length_church_names: "length church_names = 12"
  by (simp add: church_names_def)

lemma church_base_name_eq: "church_base_name i = Inr (church_names ! (i mod 12))"
  by (simp add: church_base_name_def length_church_names)





lemma needs_loop_total:
  assumes "usable dd ''donor_id''" "usable cd ''church_id''"
  shows "\<exists>out g'. needs_loop idx dd cd acc g = Inr (out, g')"
proof (induction idx arbitrary: acc g)
  case Nil
  then show ?case by simp
next
  case (Cons i rest)
  obtain nd g1 where "need_record i dd cd g = Inr (nd, g1)"
    using need_record_total [OF assms] by blast
  then show ?case using Cons.IH [of "acc @ [nd]" g1] by simp
qed

lemma generate_donors_rows:
  assumes "generate_donors n g = Inr (df, g')"
  shows "columns df = (if n = 0 then [] else donor_columns)"
    and "length (rows df) = n"
    and "\<forall>k<n. \<exists>h h'. donor_record (k + 1) h = Inr (rows df ! k, h')"
proof -
  from assms obtain out where
    l: "donors_loop [1..<n + 1] [] g = Inr (out, g')" and df: "df = DataFrame donor_columns out"
    unfolding generate_donors_def by (auto split: sum.splits)
  from donors_loop_rel [OF l]
  have "list_all2 (\<lambda>i r. \<exists>h h'. donor_record i h = Inr (r, h')) [1..<n + 1] out" by simp
  from upt_rows [OF this]
  have r: "length out = n \<and> (\<forall>k<n. \<exists>h h'. donor_record (k + 1) h = Inr (out ! k, h'))" .
  show "length (rows df) = n" using r df by (simp add: DataFrame_def)
  show "\<forall>k<n. \<exists>h h'. donor_record (k + 1) h = Inr (rows df ! k, h')"
    using r df by (simp add: DataFrame_def)
  show "columns df = (if n = 0 then [] else donor_columns)"
    using r df by (auto simp: DataFrame_def)
qed

lemma generate_churches_rows:
  assumes "generate_churches n g = Inr (df, g')"
  shows "columns df = (if n = 0 then [] else church_columns)"
    and "length (rows df) = n"
    and "\<forall>k<n. \<exists>h h'. church_record (k + 1) h = Inr (rows df ! k, h')"
proof -
  from assms obtain out where
    l: "churches_loop [1..<n + 1] [] g = Inr (out, g')" and df: "df = DataFrame church_columns out"
    unfolding generate_churches_def by (auto split: sum.splits)
  from churches_loop_rel [OF l]
  have "list_all2 (\<lambda>i r. \<exists>h h'. church_record i h = Inr (r, h')) [1..<n + 1] out" by simp
  from upt_rows [OF this]
  have r: "length out = n \<and> (\<forall>k<n. \<exists>h h'. church_record (k + 1) h = Inr (out ! k, h'))" .
  show "length (rows df) = n" using r df by (simp add: DataFrame_def)
  show "\<forall>k<n. \<exists>h h'. church_record (k + 1) h = Inr (rows df ! k, h')"
    using r df by (simp add: DataFrame_def)
  show "columns df = (if n = 0 then [] else church_columns)"
    using r df by (auto simp: DataFrame_def)
qed

lemma generate_needs_rows:
  assumes "generate_needs n dd cd g = Inr (df, g')"
  shows "columns df = (if n = 0 then [] else need_columns)"
    and "length (rows df) = n"
    and "\<forall>k<n. \<exists>h h'. need_record (k + 1) dd cd h = Inr (rows df ! k, h')"
proof -
  from assms obtain out where
    l: "needs_loop [1..<n + 1] dd cd [] g = Inr (out, g')" and df: "df = DataFrame need_columns out"
    unfolding generate_needs_def by (auto split: sum.splits)
  from needs_loop_rel [OF l]
  have "list_all2 (\<lambda>i r. \<exists>h h'. need_record i dd cd h = Inr (r, h')) [1..<n + 1] out" by simp
  from upt_rows [OF this]
  have r: "length out = n \<and> (\<forall>k<n. \<exists>h h'. need_record (k + 1) dd cd h = Inr (out ! k, h'))" .
  show "length (rows df) = n" using r df by (simp add: DataFrame_def)
  show "\<forall>k<n. \<exists>h h'. need_record (k + 1) dd cd h = Inr (rows df ! k, h')"
    using r df by (simp add: DataFrame_def)
  show "columns df = (if n = 0 then [] else need_columns)"
    using r df by (auto simp: DataFrame_def)
qed

lemma generate_needs_member:
  assumes "generate_needs n dd cd g = Inr (df, g')" "nd \<in> set (rows df)"
  shows "\<exists>i h h'. need_record i dd cd h = Inr (nd, h')"
proof -
  from assms(2) obtain k where k: "k < length (rows df)" "rows df ! k = nd"
    by (auto simp: in_set_conv_nth)
  then show ?thesis
    using generate_needs_rows(2,3) [OF assms(1)] by metis
qed



lemma generate_needs_total:
  assumes "usable dd ''donor_id''" "usable cd ''church_id''"
  shows "\<exists>df g'. generate_needs n dd cd g = Inr (df, g')"
  using needs_loop_total [OF assms, of "[1..<n + 1]" "[]" g]
  by (auto simp: generate_needs_def simp del: upt_Suc)

subsection \<open>The fulfillment deriver and the pipeline\<close>

lemma is_fulfilled_eq:
  "is_fulfilled = (\<lambda>nd. status nd = ''Fulfilled'' \<or> status nd = ''Closed'')"
  by (rule ext) (simp add: is_fulfilled_def)


lemma fulfillment_record_Inr:
  assumes "fulfillment_record k nd g = Inr (f, g')"
  shows "fulfillment_id f = ''FH'' @ zfill 5 (str_nat (k + 1))"
    and "fulfillment.need_id f = need.need_id nd"
    and "donor_id f = assigned_donor_id nd"
    and "church_id f = assigned_church_id nd"
    and "fulfillment.request_date f = need.request_date nd"
    and "fulfillment.matched_date f = need.matched_date nd"
    and "fulfillment.fulfilled_date f = need.fulfilled_date nd"
    and "fulfillment.category f = need.category nd"
    and "1 \<le> response_time_hours f"
    and "1 \<le> fulfillment_time_hours f"
  using assms
  by (auto simp: fulfillment_record_def Let_def split: sum.splits prod.splits)



lemma generate_fulfillments_rows:
  assumes "generate_fulfillments needs_df g = Inr (fs, g')"
  shows "length (rows fs) = length (filter is_fulfilled (rows needs_df))"
    and "\<forall>j<length (rows fs). \<exists>h h'.
           fulfillment_record j (filter is_fulfilled (rows needs_df) ! j) h = Inr (rows fs ! j, h')"
proof -
  from assms obtain out where
    l: "fulfillments_loop (filter is_fulfilled (rows needs_df)) [] g = Inr (out, g')" and
    fs: "fs = DataFrame fulfillment_columns out"
    unfolding generate_fulfillments_def by (auto simp: Let_def split: sum.splits)
  from fulfillments_loop_rel [OF l] have
    r: "length out = length (filter is_fulfilled (rows needs_df))"
       "\<forall>j<length (filter is_fulfilled (rows needs_df)). \<exists>h h'.
          fulfillment_record j (filter is_fulfilled (rows needs_df) ! j) h = Inr (out ! j, h')"
    by auto
  show "length (rows fs) = length (filter is_fulfilled (rows needs_df))"
    using r(1) fs by (simp add: DataFrame_def)
  show "\<forall>j<length (rows fs). \<exists>h h'.
          fulfillment_record j (filter is_fulfilled (rows needs_df) ! j) h = Inr (rows fs ! j, h')"
    using r fs by (simp add: DataFrame_def)
qed




subsection \<open>Evaluation on concrete inputs\<close>

lemma replicate_numeral: "replicate (numeral k) x = x # replicate (pred_numeral k) x"
  by (simp add: numeral_eq_Suc)

lemma sample_loop_numeral:
  "sample_loop pool (numeral k) g =
     (let j = shd g mod length pool;
          (picked, g') = sample_loop (take j pool @ drop (Suc j) pool) (pred_numeral k) (stl g)
      in (pool ! j # picked, g'))"
  by (simp add: numeral_eq_Suc)

text \<open>The equations that compute the generators on a concrete random sequence.\<close>

lemmas eval_defs =
  random_choice_def randint_def random_random_def random_sample_def gt_0_1_def gt_0_7_def
  str_int_def zfill_def digit_char_def chr_65_plus_def str_nat.simps
  strftime_ymd_def datetime_2024_1_1_def timedelta_days_def timedelta_hours_def
  to_datetime_def total_seconds_diff_def int_div_3600_def
  DataFrame_def column_tolist_def
  need_categories_def categories_def urgency_levels_def cities_def church_names_def statuses_def
  donor_columns_def church_columns_def need_columns_def fulfillment_columns_def
  donor_record_def generate_donors_def
  church_base_name_def church_record_def generate_churches_def
  assign_id_def need_lifecycle_def category_items_def need_record_def generate_needs_def
  fulfillment_record_def is_fulfilled_def generate_fulfillments_def
  Let_def upt_rec replicate_numeral sample_loop_numeral

section \<open>The claims\<close>

subsection \<open>C1: needs generated against empty donor and church tables\<close>

text \<open>
  C1 as stated: called with a donor table and a church table that are present but have
  no rows, and a count of 10, \<open>generate_needs\<close> completes without error and leaves
  both assignments unset on every row. It fails: on the random sequence 1, 1, 1, ... the
  first need draws the status Matched, and the donor assignment raises. A table built by
  \<open>pd.DataFrame([])\<close> has no \<open>donor_id\<close> column (KeyError); an empty table that
  has the column gives \<open>random.choice\<close> an empty list (IndexError).
\<close>

theorem needs_with_empty_tables_raises:
  "generate_needs 10 (Some (DataFrame donor_columns [])) (Some (DataFrame church_columns []))
     (sconst 1) = Inl (KeyError ''donor_id'') \<and>
   generate_needs 10 (Some \<lparr>columns = donor_columns, rows = []\<rparr>)
     (Some \<lparr>columns = church_columns, rows = []\<rparr>) (sconst 1) = Inl IndexError"
  by (simp add: eval_defs)

text \<open>
  C1, amended. With the donor table and the church table absent (\<open>None\<close>), for every
  count and every random sequence, \<open>generate_needs\<close> completes without error, returns
  as many rows as asked for, and every row has its donor and church assignment unset,
  whatever its status. With tables that are present but have no rows, a call that
  completes has both assignments unset on every row, and every row then has the status
  Requested or Cancelled.
\<close>

theorem needs_without_tables_unassigned:
  "(\<exists>df g'. generate_needs n None None g = Inr (df, g') \<and> length (rows df) = n \<and>
      (\<forall>nd\<in>set (rows df). assigned_donor_id nd = None \<and> assigned_church_id nd = None)) \<and>
   (rows ds = [] \<longrightarrow> rows cs = [] \<longrightarrow>
    generate_needs n (Some ds) (Some cs) h = Inr (df', h') \<longrightarrow>
      (\<forall>nd\<in>set (rows df').
         assigned_donor_id nd = None \<and> assigned_church_id nd = None \<and>
         (status nd = ''Requested'' \<or> status nd = ''Cancelled'')))"
proof (intro conjI impI)
  obtain df g' where e: "generate_needs n None None g = Inr (df, g')"
    using generate_needs_total [OF usable_None usable_None] by blast
  have "assigned_donor_id nd = None \<and> assigned_church_id nd = None"
    if mem: "nd \<in> set (rows df)" for nd
  proof -
    obtain i k k' where r: "need_record i None None k = Inr (nd, k')"
      using generate_needs_member [OF e mem] by blast
    show ?thesis using need_record_assigned [OF r] by simp
  qed
  then show "\<exists>df g'. generate_needs n None None g = Inr (df, g') \<and> length (rows df) = n \<and>
      (\<forall>nd\<in>set (rows df). assigned_donor_id nd = None \<and> assigned_church_id nd = None)"
    using e generate_needs_rows(2) [OF e] by blast
next
  assume ds: "rows ds = []" and e: "generate_needs n (Some ds) (Some cs) h = Inr (df', h')"
  show "\<forall>nd\<in>set (rows df').
         assigned_donor_id nd = None \<and> assigned_church_id nd = None \<and>
         (status nd = ''Requested'' \<or> status nd = ''Cancelled'')"
  proof
    fix nd assume mem: "nd \<in> set (rows df')"
    obtain i k k' where r: "need_record i (Some ds) (Some cs) k = Inr (nd, k')"
      using generate_needs_member [OF e mem] by blast
    have s: "status nd = ''Requested'' \<or> status nd = ''Cancelled''"
      using need_record_empty_donors [OF r ds] .
    then show "assigned_donor_id nd = None \<and> assigned_church_id nd = None \<and>
         (status nd = ''Requested'' \<or> status nd = ''Cancelled'')"
      using need_record_unset_iff [OF r] by simp
  qed
qed

text \<open>
  C1, witness: ten needs without tables on the sequence 3, 3, 3, ... are all Fulfilled and
  unassigned; two needs against empty tables on the sequence 0, 0, 0, ... are both
  Requested, and the call completes.
\<close>

theorem needs_without_tables_unassigned_witness:
  "(\<exists>df g'. generate_needs 10 None None (sconst 3) = Inr (df, g') \<and> length (rows df) = 10 \<and>
      list_all (\<lambda>nd. status nd = ''Fulfilled'' \<and> assigned_donor_id nd = None \<and>
                      assigned_church_id nd = None) (rows df)) \<and>
   (\<exists>df g'. generate_needs 2 (Some (DataFrame donor_columns []))
               (Some (DataFrame church_columns [])) (sconst 0) = Inr (df, g') \<and>
      list_all (\<lambda>nd. status nd = ''Requested'' \<and> assigned_donor_id nd = None \<and>
                      assigned_church_id nd = None) (rows df))"
proof -
  have s3: "\<exists>df g'. generate_needs 10 None None (sconst 3) = Inr (df, g') \<and>
              list_all (\<lambda>nd. status nd = ''Fulfilled'') (rows df)"
    by (simp add: eval_defs)
  have s0: "\<exists>df g'. generate_needs 2 (Some (DataFrame donor_columns []))
               (Some (DataFrame church_columns [])) (sconst 0) = Inr (df, g') \<and>
              list_all (\<lambda>nd. status nd = ''Requested'') (rows df)"
    by (simp add: eval_defs)
  from s3 obtain df3 g3 where
    e3: "generate_needs 10 None None (sconst 3) = Inr (df3, g3)" and
    f3: "list_all (\<lambda>nd. status nd = ''Fulfilled'') (rows df3)"
    by blast
  from s0 obtain df0 g0 where
    e0: "generate_needs 2 (Some (DataFrame donor_columns []))
           (Some (DataFrame church_columns [])) (sconst 0) = Inr (df0, g0)" and
    f0: "list_all (\<lambda>nd. status nd = ''Requested'') (rows df0)"
    by blast
  have r0: "rows (DataFrame donor_columns ([]::donor list)) = []"
           "rows (DataFrame church_columns ([]::church list)) = []"
    by (simp_all add: DataFrame_def)
  note t = needs_without_tables_unassigned [where n = 10 and g = "sconst 3"]
  note u = needs_without_tables_unassigned
             [where n = 2 and ds = "DataFrame donor_columns []"
                and cs = "DataFrame church_columns []" and h = "sconst 0"
                and df' = df0 and h' = g0]
  from t e3 have a: "length (rows df3) = 10 \<and>
      (\<forall>nd\<in>set (rows df3). assigned_donor_id nd = None \<and> assigned_church_id nd = None)"
    by auto
  from u r0 e0 have b:
    "\<forall>nd\<in>set (rows df0). assigned_donor_id nd = None \<and> assigned_church_id nd = None"
    by auto
  show ?thesis
    using e3 f3 a e0 f0 b by (auto simp: list_all_iff)
qed

subsection \<open>C2: which needs have no lifecycle data\<close>

text \<open>
  C2 as stated: with both tables supplied and non-empty, a generated need has the status
  Requested if and only if its matched date, fulfilled date, donor assignment and church
  assignment are all unset. The "if" half fails: on the random sequence 5, 5, 5, ... the
  need drawn has the status Cancelled and all four fields unset.
\<close>

theorem cancelled_need_all_unset:
  "\<exists>ds g1 cs g2 df g3.
     generate_donors 1 (sconst 0) = Inr (ds, g1) \<and> nonempty_with ds ''donor_id'' \<and>
     generate_churches 1 (sconst 0) = Inr (cs, g2) \<and> nonempty_with cs ''church_id'' \<and>
     generate_needs 1 (Some ds) (Some cs) (sconst 5) = Inr (df, g3) \<and>
     (\<exists>nd\<in>set (rows df).
        status nd = ''Cancelled'' \<and>
        \<not> (status nd = ''Requested'' \<longleftrightarrow>
             need.matched_date nd = None \<and> need.fulfilled_date nd = None \<and>
             assigned_donor_id nd = None \<and> assigned_church_id nd = None))"
  by (simp add: eval_defs nonempty_with_def)

text \<open>
  C2, amended. With both tables supplied, each with its identifier column and at least one
  row, \<open>generate_needs\<close> completes for every count and every random sequence, and in
  every record it returns the status is Requested or Cancelled if and only if the matched
  date, the fulfilled date, the donor assignment and the church assignment are all unset.
\<close>

theorem need_unset_iff_requested_or_cancelled:
  assumes "nonempty_with ds ''donor_id''" "nonempty_with cs ''church_id''"
  shows "\<exists>df g'. generate_needs n (Some ds) (Some cs) g = Inr (df, g') \<and>
           length (rows df) = n \<and>
           (\<forall>nd\<in>set (rows df).
              (status nd = ''Requested'' \<or> status nd = ''Cancelled'') \<longleftrightarrow>
              (need.matched_date nd = None \<and> need.fulfilled_date nd = None \<and>
               assigned_donor_id nd = None \<and> assigned_church_id nd = None))"
proof -
  obtain df g' where e: "generate_needs n (Some ds) (Some cs) g = Inr (df, g')"
    using generate_needs_total [OF usable_Some [OF assms(1)] usable_Some [OF assms(2)]]
    by blast
  have "(status nd = ''Requested'' \<or> status nd = ''Cancelled'') \<longleftrightarrow>
        (need.matched_date nd = None \<and> need.fulfilled_date nd = None \<and>
         assigned_donor_id nd = None \<and> assigned_church_id nd = None)"
    if mem: "nd \<in> set (rows df)" for nd
  proof -
    obtain i h h' where r: "need_record i (Some ds) (Some cs) h = Inr (nd, h')"
      using generate_needs_member [OF e mem] by blast
    show ?thesis using need_record_unset_iff [OF r] .
  qed
  then show ?thesis using e generate_needs_rows(2) [OF e] by blast
qed

text \<open>
  C2, witness: three needs against one donor and one church, with the statuses Cancelled,
  Matched and Requested; only the Matched one has a donor.
\<close>

theorem need_unset_iff_requested_or_cancelled_witness:
  "\<exists>ds g1 cs g2.
     generate_donors 1 (sconst 0) = Inr (ds, g1) \<and> nonempty_with ds ''donor_id'' \<and>
     generate_churches 1 (sconst 0) = Inr (cs, g2) \<and> nonempty_with cs ''church_id'' \<and>
     (\<exists>df g3.
        generate_needs 3 (Some ds) (Some cs)
          ([0, 0, 0, 0, 5, 0, 0, 0, 0, 0, 0, 0, 0, 0, 1] @- sconst 0) = Inr (df, g3) \<and>
        map status (rows df) = [''Cancelled'', ''Matched'', ''Requested''] \<and>
        map assigned_donor_id (rows df) = [None, Some ''D0001'', None] \<and>
        (\<forall>nd\<in>set (rows df).
           (status nd = ''Requested'' \<or> status nd = ''Cancelled'') \<longleftrightarrow>
           (need.matched_date nd = None \<and> need.fulfilled_date nd = None \<and>
            assigned_donor_id nd = None \<and> assigned_church_id nd = None)))"
proof -
  have "\<exists>ds g1 cs g2 df g3.
     generate_donors 1 (sconst 0) = Inr (ds, g1) \<and> nonempty_with ds ''donor_id'' \<and>
     generate_churches 1 (sconst 0) = Inr (cs, g2) \<and> nonempty_with cs ''church_id'' \<and>
     generate_needs 3 (Some ds) (Some cs)
       ([0, 0, 0, 0, 5, 0, 0, 0, 0, 0, 0, 0, 0, 0, 1] @- sconst 0) = Inr (df, g3) \<and>
     map status (rows df) = [''Cancelled'', ''Matched'', ''Requested''] \<and>
     map assigned_donor_id (rows df) = [None, Some ''D0001'', None]"
    by (simp add: eval_defs nonempty_with_def)
  then obtain ds g1 cs g2 df g3 where
    d: "generate_donors 1 (sconst 0) = Inr (ds, g1)" "nonempty_with ds ''donor_id''" and
    c: "generate_churches 1 (sconst 0) = Inr (cs, g2)" "nonempty_with cs ''church_id''" and
    n: "generate_needs 3 (Some ds) (Some cs)
          ([0, 0, 0, 0, 5, 0, 0, 0, 0, 0, 0, 0, 0, 0, 1] @- sconst 0) = Inr (df, g3)" and
    v: "map status (rows df) = [''Cancelled'', ''Matched'', ''Requested'']"
       "map assigned_donor_id (rows df) = [None, Some ''D0001'', None]"
    by (elim exE conjE) (rule that)
  from need_unset_iff_requested_or_cancelled [OF d(2) c(2), of 3
         "[0, 0, 0, 0, 5, 0, 0, 0, 0, 0, 0, 0, 0, 0, 1] @- sconst 0"] n
  have "\<forall>nd\<in>set (rows df).
           (status nd = ''Requested'' \<or> status nd = ''Cancelled'') \<longleftrightarrow>
           (need.matched_date nd = None \<and> need.fulfilled_date nd = None \<and>
            assigned_donor_id nd = None \<and> assigned_church_id nd = None)"
    by auto
  then show ?thesis using d c n v by (intro exI conjI)
qed

subsection \<open>C3: the order of the stored dates\<close>

text \<open>
  C3 as stated: in a Fulfilled or Closed need, the stored fulfilled date is strictly later
  than the stored matched date, which is strictly later than the stored request date. It
  fails: the stored values are days, and offsets of a few hours stay within the day. On
  the random sequence 3, 3, 3, ... the need is Fulfilled, requested on day 3, matched 4
  hours later and fulfilled 4 hours after that: all three stored dates are day 3.
\<close>

theorem fulfilled_need_same_day:
  "\<exists>ds g1 cs g2 df g3.
     generate_donors 1 (sconst 0) = Inr (ds, g1) \<and>
     generate_churches 1 (sconst 0) = Inr (cs, g2) \<and>
     generate_needs 1 (Some ds) (Some cs) (sconst 3) = Inr (df, g3) \<and>
     (\<exists>nd\<in>set (rows df).
        status nd = ''Fulfilled'' \<and>
        need.request_date nd = Date 3 \<and>
        need.matched_date nd = Some (Date 3) \<and>
        need.fulfilled_date nd = Some (Date 3))"
  by (simp add: eval_defs)

text \<open>
  C3, amended. In every record \<open>generate_needs\<close> returns whose status is Fulfilled
  or Closed, the matched date and the fulfilled date are set, the stored matched date is
  the stored request date or a later day, and the stored fulfilled date is the stored
  matched date or a later day.
\<close>

theorem completed_need_dates_ordered:
  assumes "generate_needs n dd cd g = Inr (df, g')"
      and "nd \<in> set (rows df)"
      and "status nd = ''Fulfilled'' \<or> status nd = ''Closed''"
  shows "\<exists>r m f. need.request_date nd = Date r \<and> need.matched_date nd = Some (Date m) \<and>
           need.fulfilled_date nd = Some (Date f) \<and> r \<le> m \<and> m \<le> f"
proof -
  obtain i h h' where r: "need_record i dd cd h = Inr (nd, h')"
    using generate_needs_member [OF assms(1,2)] by blast
  have "completed (status nd)" using assms(3) by (auto simp: completed_def)
  from need_record_completed_dates [OF r this] show ?thesis .
qed

text \<open>
  C3, witness: a Fulfilled need requested on day 7, matched 31 hours later (day 8) and
  fulfilled 101 hours after that (day 12), and a Closed need whose three dates are day 9.
\<close>

theorem completed_need_dates_ordered_witness:
  "\<exists>df g'. generate_needs 2 None None
             ([0, 0, 0, 7, 3, 30, 100, 0, 0, 0, 0, 0, 0, 0, 0, 9, 4, 2, 3] @- sconst 0) =
             Inr (df, g') \<and>
     map status (rows df) = [''Fulfilled'', ''Closed''] \<and>
     map need.request_date (rows df) = [Date 7, Date 9] \<and>
     map need.matched_date (rows df) = [Some (Date 8), Some (Date 9)] \<and>
     map need.fulfilled_date (rows df) = [Some (Date 12), Some (Date 9)] \<and>
     (\<exists>r m f. need.request_date (rows df ! 0) = Date r \<and>
        need.matched_date (rows df ! 0) = Some (Date m) \<and>
        need.fulfilled_date (rows df ! 0) = Some (Date f) \<and> r \<le> m \<and> m \<le> f)"
proof -
  have "\<exists>df g'. generate_needs 2 None None
             ([0, 0, 0, 7, 3, 30, 100, 0, 0, 0, 0, 0, 0, 0, 0, 9, 4, 2, 3] @- sconst 0) =
             Inr (df, g') \<and>
     map status (rows df) = [''Fulfilled'', ''Closed''] \<and>
     map need.request_date (rows df) = [Date 7, Date 9] \<and>
     map need.matched_date (rows df) = [Some (Date 8), Some (Date 9)] \<and>
     map need.fulfilled_date (rows df) = [Some (Date 12), Some (Date 9)]"
    by (simp add: eval_defs)
  then obtain df g' where
    e: "generate_needs 2 None None
          ([0, 0, 0, 7, 3, 30, 100, 0, 0, 0, 0, 0, 0, 0, 0, 9, 4, 2, 3] @- sconst 0) =
          Inr (df, g')" and
    v: "map status (rows df) = [''Fulfilled'', ''Closed'']"
       "map need.request_date (rows df) = [Date 7, Date 9]"
       "map need.matched_date (rows df) = [Some (Date 8), Some (Date 9)]"
       "map need.fulfilled_date (rows df) = [Some (Date 12), Some (Date 9)]"
    by (elim exE conjE) (rule that)
  have len: "length (rows df) = 2" using v(1) by (auto dest: arg_cong [where f = length])
  then have mem: "rows df ! 0 \<in> set (rows df)" by simp
  have "map status (rows df) ! 0 = ''Fulfilled''" using v(1) by simp
  then have st: "status (rows df ! 0) = ''Fulfilled'' \<or> status (rows df ! 0) = ''Closed''"
    using len by simp
  from completed_need_dates_ordered [OF e mem st]
  show ?thesis using e v by (intro exI [of _ df] exI [of _ g'] conjI)
qed

subsection \<open>C4: durations and number of the fulfillment records\<close>



subsection \<open>C5: the same seed gives the same tables\<close>



subsection \<open>C6: church names\<close>

lemma church_record_fields:
  assumes "church_record i g = Inr (c, g')"
  shows "church.name c =
           (if length church_names < i
            then church_names ! (i mod length church_names) @ '' - '' @ church.city c
            else church_names ! (i mod length church_names))"
    and "church.church_id c = ''C'' @ zfill 3 (str_nat i)"
  using assms
  by (auto simp: church_record_def church_base_name_eq length_church_names Let_def
           split: sum.splits prod.splits if_splits)

text \<open>
  C6. The church with the sequential index \<open>i\<close> (from 1) is row \<open>i - 1\<close> of the
  table and has the identifier made from \<open>i\<close>. Its base name is the entry of the name
  list at position \<open>i\<close> modulo the length of the list. Its stored name is the base name
  followed by \<open>" - "\<close> and its city when \<open>i\<close> exceeds the length of the list, and
  the base name alone otherwise; so the stored name is the base name exactly when \<open>i\<close>
  does not exceed the length of the list.
\<close>

theorem church_name_cycles:
  assumes "generate_churches n g = Inr (df, g')" and "1 \<le> i" and "i \<le> n"
  shows "let c = rows df ! (i - 1);
             base_name = church_names ! (i mod length church_names)
         in church.church_id c = ''C'' @ zfill 3 (str_nat i) \<and>
            church.name c =
              (if length church_names < i then base_name @ '' - '' @ church.city c
               else base_name) \<and>
            (church.name c = base_name \<longleftrightarrow> i \<le> length church_names)"
proof -
  have "i - 1 < n" using assms(2,3) by simp
  then obtain h h' where
    "church_record (i - 1 + 1) h = Inr (rows df ! (i - 1), h')"
    using generate_churches_rows(3) [OF assms(1)] by blast
  then have r: "church_record i h = Inr (rows df ! (i - 1), h')"
    using assms(2) by simp
  show ?thesis
    using church_record_fields [OF r] unfolding Let_def by auto
qed

text \<open>
  C6, witness: thirteen churches. The first twelve carry the names of the list starting
  from its second entry; the thirteenth is the second entry again, with its city.
\<close>

theorem church_name_cycles_witness:
  "\<exists>df g'. generate_churches 13 ([0, 0, 0, 0, 0, 2] @- sconst 0) = Inr (df, g') \<and>
     map church.name (rows df) =
       [''First Baptist Church'', ''Hope Fellowship'', ''New Life Church'',
        ''Trinity Methodist'', ''Cornerstone Church'', ''Redemption Church'',
        ''Faith Assembly'', ''Crossroads Church'', ''Harvest Church'',
        ''The Bridge Church'', ''Lighthouse Church'', ''Grace Community Church'',
        ''First Baptist Church - Atlanta''] \<and>
     church.city (rows df ! 1) = ''Nashville'' \<and>
     (let c = rows df ! (13 - 1);
          base_name = church_names ! (13 mod length church_names)
      in church.church_id c = ''C'' @ zfill 3 (str_nat 13) \<and>
         church.name c =
           (if length church_names < 13 then base_name @ '' - '' @ church.city c
            else base_name) \<and>
         (church.name c = base_name \<longleftrightarrow> 13 \<le> length church_names))"
proof -
  have "\<exists>df g'. generate_churches 13 ([0, 0, 0, 0, 0, 2] @- sconst 0) = Inr (df, g') \<and>
     map church.name (rows df) =
       [''First Baptist Church'', ''Hope Fellowship'', ''New Life Church'',
        ''Trinity Methodist'', ''Cornerstone Church'', ''Redemption Church'',
        ''Faith Assembly'', ''Crossroads Church'', ''Harvest Church'',
        ''The Bridge Church'', ''Lighthouse Church'', ''Grace Community Church'',
        ''First Baptist Church - Atlanta''] \<and>
     church.city (rows df ! 1) = ''Nashville''"
    by (simp add: eval_defs)
  then obtain df g' where
    e: "generate_churches 13 ([0, 0, 0, 0, 0, 2] @- sconst 0) = Inr (df, g')" and
    v: "map church.name (rows df) =
       [''First Baptist Church'', ''Hope Fellowship'', ''New Life Church'',
        ''Trinity Methodist'', ''Cornerstone Church'', ''Redemption Church'',
        ''Faith Assembly'', ''Crossroads Church'', ''Harvest Church'',
        ''The Bridge Church'', ''Lighthouse Church'', ''Grace Community Church'',
        ''First Baptist Church - Atlanta'']"
       "church.city (rows df ! 1) = ''Nashville''"
    by (elim exE conjE) (rule that)
  have a: "(1::nat) \<le> 13" and b: "(13::nat) \<le> 13" by simp_all
  from church_name_cycles [OF e a b]
  show ?thesis using e v by (intro exI [of _ df] exI [of _ g'] conjI)
qed

subsection \<open>C7: donor specialties\<close>

text \<open>
  C7. In every record \<open>generate_donors\<close> returns, the specialties field, read as a
  list separated by semicolons, has between 1 and 3 entries, all of them categories of the
  fixed list, and no entry twice.
\<close>

theorem donor_specialties_set:
  assumes "generate_donors n g = Inr (df, g')" and "d \<in> set (rows df)"
  shows "let cs = split_char CHR '';'' (specialties d)
         in 1 \<le> length cs \<and> length cs \<le> 3 \<and> distinct cs \<and> set cs \<subseteq> set categories"
proof -
  from assms(2) obtain k where k: "k < length (rows df)" "rows df ! k = d"
    by (auto simp: in_set_conv_nth)
  then obtain h h' where r: "donor_record (k + 1) h = Inr (d, h')"
    using generate_donors_rows(2,3) [OF assms(1)] by metis
  from donor_record_specialties [OF r] obtain cs where
    cs: "specialties d = join '';'' cs" "1 \<le> length cs" "length cs \<le> 3" "distinct cs"
        "set cs \<subseteq> set categories"
    by blast
  have ne: "cs \<noteq> []" using cs(2) by auto
  have "\<forall>x\<in>set cs. CHR '';'' \<notin> set x"
    using cs(5) categories_no_semicolon by blast
  from split_join [OF ne this] have "split_char CHR '';'' (specialties d) = cs"
    using cs(1) by simp
  then show ?thesis using cs(2-5) by simp
qed

text \<open>
  C7, witness: a donor with three specialties and a donor with one.
\<close>

theorem donor_specialties_set_witness:
  "\<exists>df g'. generate_donors 2 ([0, 2, 7, 0, 3] @- sconst 0) = Inr (df, g') \<and>
     map specialties (rows df) = [''Medical;Housing;Transportation'', ''Housing''] \<and>
     split_char CHR '';'' (specialties (rows df ! 0)) =
       [''Medical'', ''Housing'', ''Transportation''] \<and>
     (let cs = split_char CHR '';'' (specialties (rows df ! 0))
      in 1 \<le> length cs \<and> length cs \<le> 3 \<and> distinct cs \<and> set cs \<subseteq> set categories)"
proof -
  have "\<exists>df g'. generate_donors 2 ([0, 2, 7, 0, 3] @- sconst 0) = Inr (df, g') \<and>
     map specialties (rows df) = [''Medical;Housing;Transportation'', ''Housing''] \<and>
     split_char CHR '';'' (specialties (rows df ! 0)) =
       [''Medical'', ''Housing'', ''Transportation'']"
    by (simp add: eval_defs)
  then obtain df g' where
    e: "generate_donors 2 ([0, 2, 7, 0, 3] @- sconst 0) = Inr (df, g')" and
    v: "map specialties (rows df) = [''Medical;Housing;Transportation'', ''Housing'']"
       "split_char CHR '';'' (specialties (rows df ! 0)) =
          [''Medical'', ''Housing'', ''Transportation'']"
    by (elim exE conjE) (rule that)
  have "length (rows df) = 2" using v(1) by (auto dest: arg_cong [where f = length])
  then have mem: "rows df ! 0 \<in> set (rows df)" by simp
  from donor_specialties_set [OF e mem]
  show ?thesis using e v by (intro exI [of _ df] exI [of _ g'] conjI)
qed

subsection \<open>C8: what a fulfillment record copies from its need\<close>

text \<open>
  C8. The \<open>k\<close>-th record \<open>generate_fulfillments\<close> returns (counting from 0) has the
  category, the donor identifier, the church identifier, the request date, the matched date
  and the fulfilled date of the \<open>k\<close>-th Fulfilled or Closed row of the need table, and
  its fulfillment identifier is \<open>FH\<close> followed by \<open>k + 1\<close> padded to five digits:
  the identifiers count the retained rows 1, 2, 3, ... and do not depend on the need's
  own identifier.
\<close>

theorem fulfillment_carries_need_fields:
  assumes "generate_fulfillments needs_df g = Inr (fs, g')"
      and "k < length (rows fs)"
  shows "let f = rows fs ! k;
             nd = filter (\<lambda>nd. status nd = ''Fulfilled'' \<or> status nd = ''Closed'')
                    (rows needs_df) ! k
         in fulfillment.category f = need.category nd \<and>
            fulfillment.donor_id f = assigned_donor_id nd \<and>
            fulfillment.church_id f = assigned_church_id nd \<and>
            fulfillment.request_date f = need.request_date nd \<and>
            fulfillment.matched_date f = need.matched_date nd \<and>
            fulfillment.fulfilled_date f = need.fulfilled_date nd \<and>
            fulfillment_id f = ''FH'' @ zfill 5 (str_nat (k + 1))"
proof -
  obtain h h' where
    r: "fulfillment_record k (filter is_fulfilled (rows needs_df) ! k) h = Inr (rows fs ! k, h')"
    using generate_fulfillments_rows(2) [OF assms(1)] assms(2) by blast
  show ?thesis
    using fulfillment_record_Inr(1,3,4,5,6,7,8) [OF r]
    unfolding is_fulfilled_eq Let_def by simp
qed

text \<open>
  C8, witness: the second fulfillment record comes from the need N00003 and carries the
  identifier FH00002.
\<close>

theorem fulfillment_carries_need_fields_witness:
  "\<exists>ns g1 fs g2.
     generate_needs 3 None None
       ([0, 0, 0, 0, 0, 0, 0, 0, 0, 0,
         0, 0, 0, 7, 3, 30, 100, 0, 0, 0, 0, 0,
         2, 0, 0, 9, 4, 2, 3] @- sconst 0) = Inr (ns, g1) \<and>
     generate_fulfillments ns g1 = Inr (fs, g2) \<and>
     length (rows fs) = 2 \<and>
     map need.need_id (rows ns) = [''N00001'', ''N00002'', ''N00003''] \<and>
     fulfillment_id (rows fs ! 1) = ''FH00002'' \<and>
     fulfillment.category (rows fs ! 1) = ''Clothing'' \<and>
     fulfillment.request_date (rows fs ! 1) = Date 9 \<and>
     (let f = rows fs ! 1;
          nd = filter (\<lambda>nd. status nd = ''Fulfilled'' \<or> status nd = ''Closed'') (rows ns) ! 1
      in fulfillment.category f = need.category nd \<and>
         fulfillment.donor_id f = assigned_donor_id nd \<and>
         fulfillment.church_id f = assigned_church_id nd \<and>
         fulfillment.request_date f = need.request_date nd \<and>
         fulfillment.matched_date f = need.matched_date nd \<and>
         fulfillment.fulfilled_date f = need.fulfilled_date nd \<and>
         fulfillment_id f = ''FH'' @ zfill 5 (str_nat (1 + 1)))"
proof -
  have "\<exists>ns g1 fs g2.
     generate_needs 3 None None
       ([0, 0, 0, 0, 0, 0, 0, 0, 0, 0,
         0, 0, 0, 7, 3, 30, 100, 0, 0, 0, 0, 0,
         2, 0, 0, 9, 4, 2, 3] @- sconst 0) = Inr (ns, g1) \<and>
     generate_fulfillments ns g1 = Inr (fs, g2) \<and>
     length (rows fs) = 2 \<and>
     map need.need_id (rows ns) = [''N00001'', ''N00002'', ''N00003''] \<and>
     fulfillment_id (rows fs ! 1) = ''FH00002'' \<and>
     fulfillment.category (rows fs ! 1) = ''Clothing'' \<and>
     fulfillment.request_date (rows fs ! 1) = Date 9"
    by (simp add: eval_defs)
  then obtain ns g1 fs g2 where
    e: "generate_needs 3 None None
       ([0, 0, 0, 0, 0, 0, 0, 0, 0, 0,
         0, 0, 0, 7, 3, 30, 100, 0, 0, 0, 0, 0,
         2, 0, 0, 9, 4, 2, 3] @- sconst 0) = Inr (ns, g1)" and
    f: "generate_fulfillments ns g1 = Inr (fs, g2)" and
    v: "length (rows fs) = 2"
       "map need.need_id (rows ns) = [''N00001'', ''N00002'', ''N00003'']"
       "fulfillment_id (rows fs ! 1) = ''FH00002''"
       "fulfillment.category (rows fs ! 1) = ''Clothing''"
       "fulfillment.request_date (rows fs ! 1) = Date 9"
    by (elim exE conjE) (rule that)
  have k: "1 < length (rows fs)" using v(1) by simp
  from fulfillment_carries_need_fields [OF f k]
  show ?thesis
    using e f v by (intro exI [of _ ns] exI [of _ g1] exI [of _ fs] exI [of _ g2] conjI)
qed

subsection \<open>C9: cancelled needs\<close>

text \<open>
  C9. In every record \<open>generate_needs\<close> returns whose status is Cancelled, the
  matched date, the fulfilled date, the donor assignment and the church assignment are all
  unset, as they are when the status is Requested; this holds whatever tables are passed.
\<close>

theorem cancelled_need_unset:
  assumes "generate_needs n dd cd g = Inr (df, g')"
      and "nd \<in> set (rows df)"
      and "status nd = ''Cancelled'' \<or> status nd = ''Requested''"
  shows "need.matched_date nd = None \<and> need.fulfilled_date nd = None \<and>
         assigned_donor_id nd = None \<and> assigned_church_id nd = None"
proof -
  obtain i h h' where r: "need_record i dd cd h = Inr (nd, h')"
    using generate_needs_member [OF assms(1,2)] by blast
  show ?thesis using need_record_unset_iff [OF r] assms(3) by blast
qed

text \<open>
  C9, witness: against two donors and two churches, a Cancelled need followed by a
  Requested one.
\<close>

theorem cancelled_need_unset_witness:
  "\<exists>ds g1 cs g2 df g3.
     generate_donors 2 (sconst 1) = Inr (ds, g1) \<and>
     generate_churches 2 (sconst 1) = Inr (cs, g2) \<and>
     generate_needs 2 (Some ds) (Some cs)
       ([0, 0, 0, 0, 5, 0, 0, 0, 0, 0] @- sconst 0) = Inr (df, g3) \<and>
     map status (rows df) = [''Cancelled'', ''Requested''] \<and>
     need.matched_date (rows df ! 0) = None \<and> need.fulfilled_date (rows df ! 0) = None \<and>
     assigned_donor_id (rows df ! 0) = None \<and> assigned_church_id (rows df ! 0) = None"
proof -
  have "\<exists>ds g1 cs g2 df g3.
     generate_donors 2 (sconst 1) = Inr (ds, g1) \<and>
     generate_churches 2 (sconst 1) = Inr (cs, g2) \<and>
     generate_needs 2 (Some ds) (Some cs)
       ([0, 0, 0, 0, 5, 0, 0, 0, 0, 0] @- sconst 0) = Inr (df, g3) \<and>
     map status (rows df) = [''Cancelled'', ''Requested'']"
    by (simp add: eval_defs)
  then obtain ds g1 cs g2 df g3 where
    d: "generate_donors 2 (sconst 1) = Inr (ds, g1)" and
    c: "generate_churches 2 (sconst 1) = Inr (cs, g2)" and
    e: "generate_needs 2 (Some ds) (Some cs)
          ([0, 0, 0, 0, 5, 0, 0, 0, 0, 0] @- sconst 0) = Inr (df, g3)" and
    v: "map status (rows df) = [''Cancelled'', ''Requested'']"
    by (elim exE conjE) (rule that)
  have len: "length (rows df) = 2" using v by (auto dest: arg_cong [where f = length])
  then have mem: "rows df ! 0 \<in> set (rows df)" by simp
  have "map status (rows df) ! 0 = ''Cancelled''" using v by simp
  then have st: "status (rows df ! 0) = ''Cancelled'' \<or> status (rows df ! 0) = ''Requested''"
    using len by simp
  from cancelled_need_unset [OF e mem st]
  have k: "need.matched_date (rows df ! 0) = None" "need.fulfilled_date (rows df ! 0) = None"
          "assigned_donor_id (rows df ! 0) = None" "assigned_church_id (rows df ! 0) = None"
    by simp_all
  show ?thesis
    using d c e v k
    by (intro exI [of _ ds] exI [of _ g1] exI [of _ cs] exI [of _ g2] exI [of _ df]
              exI [of _ g3] conjI)
qed

subsection \<open>C10: the needs the fulfillment records refer to\<close>

text \<open>
  C10. The need identifiers of the records \<open>generate_fulfillments\<close> returns are, in
  order, the need identifiers of the Fulfilled or Closed rows of the need table: one
  record for each retained row, the \<open>k\<close>-th record for the \<open>k\<close>-th retained row. In
  particular every record refers to a row of the table whose status is Fulfilled or Closed.
\<close>

theorem fulfillment_need_ids:
  assumes "generate_fulfillments needs_df g = Inr (fs, g')"
  shows "map fulfillment.need_id (rows fs) =
           map need.need_id
             (filter (\<lambda>nd. status nd = ''Fulfilled'' \<or> status nd = ''Closed'') (rows needs_df)) \<and>
         (\<forall>f\<in>set (rows fs). \<exists>nd\<in>set (rows needs_df).
            (status nd = ''Fulfilled'' \<or> status nd = ''Closed'') \<and>
            fulfillment.need_id f = need.need_id nd)"
proof -
  let ?kept = "filter is_fulfilled (rows needs_df)"
  have len: "length (rows fs) = length ?kept"
    using generate_fulfillments_rows(1) [OF assms] .
  have nth: "fulfillment.need_id (rows fs ! j) = need.need_id (?kept ! j)"
    if j: "j < length (rows fs)" for j
  proof -
    obtain h h' where "fulfillment_record j (?kept ! j) h = Inr (rows fs ! j, h')"
      using generate_fulfillments_rows(2) [OF assms] j by blast
    from fulfillment_record_Inr(2) [OF this] show ?thesis .
  qed
  have m: "map fulfillment.need_id (rows fs) = map need.need_id ?kept"
    using len nth by (simp add: list_eq_iff_nth_eq)
  have "\<exists>nd\<in>set (rows needs_df).
          (status nd = ''Fulfilled'' \<or> status nd = ''Closed'') \<and>
          fulfillment.need_id f = need.need_id nd"
    if mem: "f \<in> set (rows fs)" for f
  proof -
    from mem obtain j where j: "j < length (rows fs)" "rows fs ! j = f"
      by (auto simp: in_set_conv_nth)
    have "j < length ?kept" using j(1) len by simp
    then have "?kept ! j \<in> set ?kept" by (rule nth_mem)
    then have "?kept ! j \<in> set (rows needs_df) \<and> is_fulfilled (?kept ! j)" by simp
    then show ?thesis using nth [OF j(1)] j(2) unfolding is_fulfilled_eq by blast
  qed
  then show ?thesis using m unfolding is_fulfilled_eq by blast
qed

text \<open>
  C10, witness: of four needs (Fulfilled, Matched, Cancelled, Closed) the first and the
  last are retained, in that order.
\<close>

theorem fulfillment_need_ids_witness:
  "\<exists>ns g1 fs g2.
     generate_needs 4 None None
       ([0, 0, 0, 0, 3, 0, 0, 0, 0, 0, 0, 0,
         0, 0, 0, 0, 1, 0, 0, 0, 0, 0, 0,
         0, 0, 0, 0, 5, 0, 0, 0, 0, 0,
         0, 0, 0, 0, 4] @- sconst 0) = Inr (ns, g1) \<and>
     generate_fulfillments ns g1 = Inr (fs, g2) \<and>
     map status (rows ns) = [''Fulfilled'', ''Matched'', ''Cancelled'', ''Closed''] \<and>
     map fulfillment.need_id (rows fs) = [''N00001'', ''N00004''] \<and>
     map fulfillment.need_id (rows fs) =
       map need.need_id
         (filter (\<lambda>nd. status nd = ''Fulfilled'' \<or> status nd = ''Closed'') (rows ns))"
proof -
  have "\<exists>ns g1 fs g2.
     generate_needs 4 None None
       ([0, 0, 0, 0, 3, 0, 0, 0, 0, 0, 0, 0,
         0, 0, 0, 0, 1, 0, 0, 0, 0, 0, 0,
         0, 0, 0, 0, 5, 0, 0, 0, 0, 0,
         0, 0, 0, 0, 4] @- sconst 0) = Inr (ns, g1) \<and>
     generate_fulfillments ns g1 = Inr (fs, g2) \<and>
     map status (rows ns) = [''Fulfilled'', ''Matched'', ''Cancelled'', ''Closed''] \<and>
     map fulfillment.need_id (rows fs) = [''N00001'', ''N00004'']"
    by (simp add: eval_defs)
  then obtain ns g1 fs g2 where
    e: "generate_needs 4 None None
       ([0, 0, 0, 0, 3, 0, 0, 0, 0, 0, 0, 0,
         0, 0, 0, 0, 1, 0, 0, 0, 0, 0, 0,
         0, 0, 0, 0, 5, 0, 0, 0, 0, 0,
         0, 0, 0, 0, 4] @- sconst 0) = Inr (ns, g1)" and
    f: "generate_fulfillments ns g1 = Inr (fs, g2)" and
    v: "map status (rows ns) = [''Fulfilled'', ''Matched'', ''Cancelled'', ''Closed'']"
       "map fulfillment.need_id (rows fs) = [''N00001'', ''N00004'']"
    by (elim exE conjE) (rule that)
  from fulfillment_need_ids [OF f]
  have "map fulfillment.need_id (rows fs) =
          map need.need_id
            (filter (\<lambda>nd. status nd = ''Fulfilled'' \<or> status nd = ''Closed'') (rows ns))"
    by (rule conjunct1)
  then show ?thesis
    using e f v by (intro exI [of _ ns] exI [of _ g1] exI [of _ fs] exI [of _ g2] conjI)
qed

end
